theory Spec2Isabelle
  imports Main "HOL-Library.Sublist"
begin

section \<open>Text primitives used by \<open>img_extract.py\<close>\<close>

text \<open>
  Python strings are modelled as \<open>string\<close>; a character stands for a code point
  below 256. The character classes are those of Python's \<open>re\<close> on \<open>str\<close> patterns and
  of \<open>str.lower\<close>, restricted to that range.
\<close>

definition is_space :: "char \<Rightarrow> bool" where
  \<comment> \<open>the class \<open>\s\<close>\<close>
  "is_space c =
     (let n = (of_char c :: nat)
      in (9 \<le> n \<and> n \<le> 13) \<or> (28 \<le> n \<and> n \<le> 32) \<or> n = 133 \<or> n = 160)"

definition is_digit :: "char \<Rightarrow> bool" where
  \<comment> \<open>the class \<open>\d\<close>\<close>
  "is_digit c = (let n = (of_char c :: nat) in 48 \<le> n \<and> n \<le> 57)"

definition lower_char :: "char \<Rightarrow> char" where
  "lower_char c =
     (let n = (of_char c :: nat)
      in if (65 \<le> n \<and> n \<le> 90) \<or> (192 \<le> n \<and> n \<le> 222 \<and> n \<noteq> 215)
         then char_of (n + 32) else c)"

definition lower :: "string \<Rightarrow> string" where
  \<comment> \<open>\<open>s.lower()\<close>\<close>
  "lower s = map lower_char s"

definition startswith :: "string \<Rightarrow> string \<Rightarrow> bool" where
  \<comment> \<open>\<open>s.startswith(p)\<close>\<close>
  "startswith s p = prefix p s"

definition endswith :: "string \<Rightarrow> string \<Rightarrow> bool" where
  \<comment> \<open>\<open>s.endswith(p)\<close>\<close>
  "endswith s p = suffix p s"

fun contains :: "string \<Rightarrow> string \<Rightarrow> bool" where
  \<comment> \<open>\<open>sub in s\<close>, written \<open>contains s sub\<close>\<close>
  "contains [] sub = (sub = [])"
| "contains (c # cs) sub = (prefix sub (c # cs) \<or> contains cs sub)"

subsection \<open>The srcset pattern\<close>

text \<open>
  Line 68: \<open>re.findall(r'([^\s]+)\s*(?:\d+[wx])?,?', srcset)\<close>.
  Everything after the group is optional, so a match starts at the first character that
  is not white space and never backtracks: the group is the longest run of characters
  that are not white space, then the white space after it is consumed, then a
  descriptor of digits followed by \<open>w\<close> or \<open>x\<close> if one stands there, then one comma if
  one stands there. \<open>findall\<close> resumes where the match ended.
\<close>

definition strip_descriptor :: "string \<Rightarrow> string" where
  \<comment> \<open>\<open>(?:\d+[wx])?\<close>\<close>
  "strip_descriptor s =
     (let ds = takeWhile is_digit s; r = dropWhile is_digit s
      in if ds \<noteq> [] \<and> (startswith r ''w'' \<or> startswith r ''x'') then tl r else s)"

definition strip_comma :: "string \<Rightarrow> string" where
  \<comment> \<open>\<open>,?\<close>\<close>
  "strip_comma s = (if startswith s '','' then tl s else s)"

definition srcset_match :: "string \<Rightarrow> string \<times> string" where
  \<comment> \<open>one match at a position that holds no white space: the group and the rest\<close>
  "srcset_match s =
     (takeWhile (\<lambda>c. \<not> is_space c) s,
      strip_comma (strip_descriptor (dropWhile is_space (dropWhile (\<lambda>c. \<not> is_space c) s))))"

lemma length_strip_descriptor: "length (strip_descriptor s) \<le> length s"
proof -
  have "length (dropWhile is_digit s) - Suc 0 \<le> length s"
    using length_dropWhile_le [of is_digit s] by arith
  then show ?thesis
    by (simp add: strip_descriptor_def Let_def)
qed

lemma length_strip_comma: "length (strip_comma s) \<le> length s"
  by (simp add: strip_comma_def)

lemma length_srcset_match:
  assumes "\<not> is_space c"
  shows "length (snd (srcset_match (c # cs))) < length (c # cs)"
proof -
  let ?r = "dropWhile is_space (dropWhile (\<lambda>c. \<not> is_space c) (c # cs))"
  have "length ?r \<le> length (dropWhile (\<lambda>c. \<not> is_space c) cs)"
    using assms by (simp add: length_dropWhile_le)
  also have "\<dots> \<le> length cs"
    by (rule length_dropWhile_le)
  finally have "length ?r \<le> length cs" .
  moreover have "length (snd (srcset_match (c # cs))) \<le> length ?r"
    unfolding srcset_match_def snd_conv
    by (rule order_trans [OF length_strip_comma length_strip_descriptor])
  ultimately show ?thesis by simp
qed

function srcset_findall :: "string \<Rightarrow> string list" where
  "srcset_findall [] = []"
| "srcset_findall (c # cs) =
     (if is_space c then srcset_findall cs
      else fst (srcset_match (c # cs)) # srcset_findall (snd (srcset_match (c # cs))))"
  by pat_completeness auto
termination
proof (relation "measure length", goal_cases)
  case 1
  show ?case by simp
next
  case (2 c cs)
  show ?case by simp
next
  case (3 c cs)
  then show ?case
    using length_srcset_match [of c cs] by simp
qed

subsection \<open>The background-image pattern\<close>

text \<open>
  Line 81: \<open>re.findall(r'url\(["\']?([^"\')]+)', style)\<close>.
  A match needs \<open>url(\<close>, then an optional quote, then at least one character that is
  neither a quote nor a closing parenthesis. When the quote is taken and no such
  character follows, giving the quote back does not help (the group would have to start
  at the quote), so the position fails and the search moves one character on.
\<close>

definition is_quote :: "char \<Rightarrow> bool" where
  "is_quote c = (c = CHR 0x22 \<or> c = CHR 0x27)"

definition url_char :: "char \<Rightarrow> bool" where
  \<comment> \<open>the class \<open>[^"\')]\<close>\<close>
  "url_char c = (\<not> is_quote c \<and> c \<noteq> CHR '')'')"

definition skip_quote :: "string \<Rightarrow> string" where
  \<comment> \<open>\<open>["\']?\<close>\<close>
  "skip_quote s = (case s of [] \<Rightarrow> [] | c # cs \<Rightarrow> if is_quote c then cs else c # cs)"

lemma length_skip_quote: "length (skip_quote s) \<le> length s"
  by (simp add: skip_quote_def split: list.splits)

function style_findall :: "string \<Rightarrow> string list" where
  "style_findall [] = []"
| "style_findall (c # cs) =
     (if startswith (c # cs) ''url('' \<and> takeWhile url_char (skip_quote (drop 4 (c # cs))) \<noteq> []
      then takeWhile url_char (skip_quote (drop 4 (c # cs)))
             # style_findall (dropWhile url_char (skip_quote (drop 4 (c # cs))))
      else style_findall cs)"
  by pat_completeness auto
termination
proof (relation "measure length", goal_cases)
  case 1
  show ?case by simp
next
  case (2 c cs)
  have "length (dropWhile url_char (skip_quote (drop 4 (c # cs))))
          \<le> length (skip_quote (drop 4 (c # cs)))"
    by (rule length_dropWhile_le)
  also have "\<dots> \<le> length (drop 4 (c # cs))"
    by (rule length_skip_quote)
  also have "\<dots> < length (c # cs)"
    by simp
  finally show ?case by simp
next
  case (3 c cs)
  show ?case by simp
qed

section \<open>The snapshot extractor\<close>

text \<open>
  A snapshot is what the HTML parser and the driver hand to the extractor: the elements
  of the page in document order, each with its tag name and its attributes. For the
  style attribute the model takes the attribute's text for what
  \<open>element.get_attribute("style")\<close> returns.
\<close>

record element =
  tag :: string
  attrs :: "string \<rightharpoonup> string"

type_synonym snapshot = "element list"

definition find_all :: "string \<Rightarrow> snapshot \<Rightarrow> element list" where
  \<comment> \<open>\<open>soup.find_all(name)\<close>\<close>
  "find_all name page = filter (\<lambda>e. tag e = name) page"

definition find_elements_style :: "string \<Rightarrow> snapshot \<Rightarrow> element list" where
  \<comment> \<open>\<open>driver.find_elements(By.CSS_SELECTOR, "[style*='sub']")\<close>\<close>
  "find_elements_style sub page =
     filter (\<lambda>e. case attrs e ''style'' of None \<Rightarrow> False | Some v \<Rightarrow> contains v sub) page"

definition lazy_attrs :: "string list" where
  "lazy_attrs = [''data-original'', ''data-lazy-src'', ''data-url'', ''data-lazysrc'']"

definition attr_refs :: "element \<Rightarrow> string \<Rightarrow> string set" where
  \<comment> \<open>\<open>if attr in img.attrs: img_urls.add(img[attr])\<close>\<close>
  "attr_refs img attr = (case attrs img attr of None \<Rightarrow> {} | Some v \<Rightarrow> {v})"

definition img_refs :: "element \<Rightarrow> string set" where
  \<comment> \<open>the body of the loop of lines 63 to 75, for one \<open>img\<close>\<close>
  "img_refs img =
     (case attrs img ''src'' of
        None \<Rightarrow> {}
      | Some src \<Rightarrow> if src \<noteq> [] then {src} else {})
     \<union> (case attrs img ''srcset'' of
          None \<Rightarrow> {}
        | Some srcset \<Rightarrow> if srcset \<noteq> [] then set (srcset_findall srcset) else {})
     \<union> attr_refs img ''data-src''
     \<union> (\<Union>attr \<in> set lazy_attrs. attr_refs img attr)"

definition style_refs :: "element \<Rightarrow> string set" where
  \<comment> \<open>the body of the loop of lines 79 to 82, for one element\<close>
  "style_refs e = (case attrs e ''style'' of None \<Rightarrow> {} | Some style \<Rightarrow> set (style_findall style))"

definition extract_images_from_current_state :: "snapshot \<Rightarrow> string set" where
  "extract_images_from_current_state page =
     (\<Union>img \<in> set (find_all ''img'' page). img_refs img)
     \<union> (\<Union>e \<in> set (find_elements_style ''background-image'' page). style_refs e)"

section \<open>The scroll harvester\<close>

text \<open>
  The browser session is a state machine over a state type \<open>'s\<close>: what the scripts of
  lines 129 to 156 read are functions of the state, scrolling and waiting are
  transitions. \<open>load_page\<close> stands for lines 90 to 125 (clearing cookies and cache,
  navigation, the consent click and the waits). The numbers the scripts return are taken
  as integers.
\<close>

record 's driver =
  page_source :: "'s \<Rightarrow> snapshot"
  scroll_height :: "'s \<Rightarrow> int"
  page_y_offset :: "'s \<Rightarrow> int"
  inner_height :: "'s \<Rightarrow> int"
  scroll_by :: "'s \<Rightarrow> 's"
  sleep :: "nat \<Rightarrow> 's \<Rightarrow> 's"
  load_page :: "string \<Rightarrow> 's \<Rightarrow> 's"

text \<open>
  The result of a harvest: the set the function returns, the counter the loop keeps
  (\<open>scroll_attempts\<close>), the number of times the loop body was entered (\<open>passes\<close>, kept
  by the model only) and the state the session is left in.
\<close>

record 's harvest =
  img_urls :: "string set"
  scroll_attempts :: nat
  passes :: nat
  surface :: "'s"

function scroll_loop ::
  "'s driver \<Rightarrow> nat \<Rightarrow> 's \<Rightarrow> string set \<Rightarrow> int \<Rightarrow> nat \<Rightarrow> nat \<Rightarrow> 's harvest" where
  "scroll_loop d max_attempts s urls last_height attempts n =
     (if attempts < max_attempts then
        let urls1 = urls \<union> extract_images_from_current_state (page_source d s);
            s1 = sleep d 1 (scroll_by d s);
            new_height = scroll_height d s1;
            current_position = page_y_offset d s1
        in if new_height = last_height \<and> current_position + inner_height d s1 \<ge> new_height
           then let s2 = sleep d 2 s1
                in \<lparr>img_urls = urls1 \<union> extract_images_from_current_state (page_source d s2),
                    scroll_attempts = attempts, passes = Suc n, surface = s2\<rparr>
           else scroll_loop d max_attempts s1 urls1 new_height (Suc attempts) (Suc n)
      else \<lparr>img_urls = urls, scroll_attempts = attempts, passes = n, surface = s\<rparr>)"
  by pat_completeness auto
termination
  by (relation "measure (\<lambda>(d, max_attempts, s, urls, last_height, attempts, n). max_attempts - attempts)")
    auto

declare scroll_loop.simps [simp del]

definition max_scroll_attempts :: nat where
  "max_scroll_attempts = 5"

definition get_image_urls_from_page :: "'s driver \<Rightarrow> string \<Rightarrow> 's \<Rightarrow> 's harvest" where
  "get_image_urls_from_page d url s =
     (let s0 = load_page d url s
      in scroll_loop d max_scroll_attempts s0 {} (scroll_height d s0) 0 0)"

section \<open>The fetcher\<close>

subsection \<open>Classification\<close>

definition is_svg_image :: "string \<Rightarrow> string option \<Rightarrow> bool" where
  "is_svg_image url content_type =
     (if endswith (lower url) ''.svg'' then True
      else if contains (lower url) ''svg'' then True
      else (case content_type of
              None \<Rightarrow> False
            | Some ct \<Rightarrow> ct \<noteq> [] \<and> contains (lower ct) ''svg''))"

subsection \<open>The outside world\<close>

text \<open>
  Library calls are parameters of the model, collected in an environment; one that can
  raise returns a sum with the exception on the left.
  \<^item> \<open>urljoin\<close> is \<open>urllib.parse.urljoin\<close>;
  \<^item> \<open>http_head url\<close> is \<open>requests.head(url, timeout=5).headers.get('content-type', '')\<close>;
  \<^item> \<open>http_get url\<close> is \<open>requests.get(url, timeout=10)\<close>;
  \<^item> \<open>md5_hex url\<close> is \<open>hashlib.md5(url.encode()).hexdigest()\<close>;
  \<^item> \<open>path_ext url\<close> is \<open>os.path.splitext(urlparse(url).path)[1]\<close>;
  \<^item> \<open>open_fails path\<close> says that \<open>open(path, "wb")\<close> raises; no file is created then;
  \<^item> \<open>write_fails path body\<close> is \<open>Some left\<close> when \<open>f.write(body)\<close> raises on the file that
    \<open>open\<close> has created or truncated, \<open>left\<close> being what the file holds afterwards, and
    \<open>None\<close> when the write succeeds.
\<close>

datatype error = Error string

record response =
  resp_status :: nat
  resp_content_type :: string
  resp_content :: string

record env =
  urljoin :: "string \<Rightarrow> string \<Rightarrow> error + string"
  http_head :: "string \<Rightarrow> error + string"
  http_get :: "string \<Rightarrow> error + response"
  md5_hex :: "string \<Rightarrow> string"
  path_ext :: "string \<Rightarrow> error + string"
  open_fails :: "string \<Rightarrow> bool"
  write_fails :: "string \<Rightarrow> string \<Rightarrow> string option"

text \<open>
  What a call changes: the files on disk (path to content) and the log of the network
  calls made so far, oldest first.
\<close>

datatype net_event = Head string | Get string

record world =
  files :: "string \<rightharpoonup> string"
  net_log :: "net_event list"

definition raise_for_status :: "response \<Rightarrow> error + response" where
  "raise_for_status r =
     (if 400 \<le> resp_status r \<and> resp_status r < 600 then Inl (Error ''HTTPError'') else Inr r)"

definition path_join :: "string \<Rightarrow> string \<Rightarrow> string" where
  \<comment> \<open>\<open>os.path.join(a, b)\<close> of \<open>posixpath\<close>\<close>
  "path_join a b =
     (if startswith b ''/'' then b
      else if a = [] \<or> endswith a ''/'' then a @ b
      else a @ ''/'' @ b)"

subsection \<open>One URL\<close>

text \<open>
  \<open>download_image\<close> returns \<open>None\<close> at five places and the path at one. The model
  names the place: \<open>SkippedDataURI\<close> is line 200, \<open>SkippedVector\<close> lines 205, 213 and
  235, \<open>SkippedDuplicateOnDisk\<close> the end of the \<open>try\<close> block reached when the file
  exists, \<open>Failed\<close> line 244 and \<open>Saved\<close> line 240.
\<close>

datatype outcome =
  Saved string
| SkippedDuplicateOnDisk
| SkippedVector
| SkippedDataURI
| Failed error

fun return_value :: "outcome \<Rightarrow> string option" where
  "return_value (Saved filepath) = Some filepath"
| "return_value SkippedDuplicateOnDisk = None"
| "return_value SkippedVector = None"
| "return_value SkippedDataURI = None"
| "return_value (Failed e) = None"

definition resolve_url :: "env \<Rightarrow> string \<Rightarrow> string \<Rightarrow> error + string" where
  \<comment> \<open>lines 195 and 196\<close>
  "resolve_url env url base_url =
     (if \<not> (startswith url ''http://'' \<or> startswith url ''https://'' \<or> startswith url ''data:'')
      then urljoin env base_url url
      else Inr url)"

definition target_path :: "env \<Rightarrow> string \<Rightarrow> string \<Rightarrow> error + string" where
  \<comment> \<open>lines 219 to 224\<close>
  "target_path env url save_dir =
     (let file_hash = md5_hex env url
      in case path_ext env url of
           Inl e \<Rightarrow> Inl e
         | Inr extension \<Rightarrow>
             Inr (path_join save_dir
                    (file_hash @ (if extension = [] then ''.jpg'' else extension))))"

definition retrieve :: "env \<Rightarrow> string \<Rightarrow> string \<Rightarrow> world \<Rightarrow> outcome \<times> world" where
  \<comment> \<open>lines 227 to 240, for the resolved \<open>url\<close>\<close>
  "retrieve env url filepath w =
     (if files w filepath = None then
        let w1 = w\<lparr>net_log := net_log w @ [Get url]\<rparr>
        in case http_get env url of
             Inl e \<Rightarrow> (Failed e, w1)
           | Inr response \<Rightarrow>
               (case raise_for_status response of
                  Inl e \<Rightarrow> (Failed e, w1)
                | Inr _ \<Rightarrow>
                    if is_svg_image url (Some (resp_content_type response)) then (SkippedVector, w1)
                    else if open_fails env filepath then (Failed (Error ''OSError''), w1)
                    else (case write_fails env filepath (resp_content response) of
                            Some left \<Rightarrow>
                              (Failed (Error ''OSError''),
                               w1\<lparr>files := (files w1)(filepath \<mapsto> left)\<rparr>)
                          | None \<Rightarrow>
                              (Saved filepath,
                               w1\<lparr>files := (files w1)(filepath \<mapsto> resp_content response)\<rparr>)))
      else (SkippedDuplicateOnDisk, w))"

definition store :: "env \<Rightarrow> string \<Rightarrow> string \<Rightarrow> world \<Rightarrow> outcome \<times> world" where
  \<comment> \<open>lines 218 to 240, for the resolved \<open>url\<close>\<close>
  "store env url save_dir w =
     (case target_path env url save_dir of
        Inl e \<Rightarrow> (Failed e, w)
      | Inr filepath \<Rightarrow> retrieve env url filepath w)"

definition probe_and_store :: "env \<Rightarrow> string \<Rightarrow> string \<Rightarrow> world \<Rightarrow> outcome \<times> world" where
  \<comment> \<open>lines 207 to 240, for the resolved \<open>url\<close>\<close>
  "probe_and_store env url save_dir w =
     (let w1 = w\<lparr>net_log := net_log w @ [Head url]\<rparr>
      in case http_head env url of
           Inr content_type \<Rightarrow>
             if is_svg_image url (Some content_type) then (SkippedVector, w1)
             else store env url save_dir w1
         | Inl e \<Rightarrow> store env url save_dir w1)"

definition download_image_outcome ::
  "env \<Rightarrow> string \<Rightarrow> string \<Rightarrow> string \<Rightarrow> world \<Rightarrow> outcome \<times> world" where
  "download_image_outcome env url base_url save_dir w =
     (case resolve_url env url base_url of
        Inl e \<Rightarrow> (Failed e, w)
      | Inr url' \<Rightarrow>
          if startswith url' ''data:'' then (SkippedDataURI, w)
          else if is_svg_image url' None then (SkippedVector, w)
          else probe_and_store env url' save_dir w)"

definition download_image ::
  "env \<Rightarrow> string \<Rightarrow> string \<Rightarrow> string \<Rightarrow> world \<Rightarrow> string option \<times> world" where
  "download_image env url base_url save_dir w =
     (return_value (fst (download_image_outcome env url base_url save_dir w)),
      snd (download_image_outcome env url base_url save_dir w))"

subsection \<open>The batch\<close>

text \<open>
  The loop of lines 266 to 270, over the URLs in the order the iteration visits them.
  \<open>download_all\<close> keeps what each call did; \<open>successful_downloads\<close> is the counter of
  line 269, which counts the calls whose return value is truthy.
\<close>

fun download_all ::
  "env \<Rightarrow> string list \<Rightarrow> string \<Rightarrow> string \<Rightarrow> world \<Rightarrow> outcome list \<times> world" where
  "download_all env [] base_url save_dir w = ([], w)"
| "download_all env (img_url # rest) base_url save_dir w =
     (let r = download_image_outcome env img_url base_url save_dir w;
          rs = download_all env rest base_url save_dir (snd r)
      in (fst r # fst rs, snd rs))"

definition truthy :: "string option \<Rightarrow> bool" where
  "truthy v = (case v of None \<Rightarrow> False | Some p \<Rightarrow> p \<noteq> [])"

definition successful_downloads :: "outcome list \<Rightarrow> nat" where
  "successful_downloads outs = length (filter (\<lambda>r. truthy (return_value r)) outs)"

section \<open>Sample pages, sessions and environments\<close>

text \<open>
  The page of the scenario: \<open><img src="/a.png">\<close>, \<open><img srcset="/b.png 1x, /c.png 2x">\<close>
  and \<open><div style="background-image:url('/d.jpg')">\<close>.
\<close>

definition example_page :: snapshot where
  "example_page =
     [\<lparr>tag = ''img'', attrs = [''src'' \<mapsto> ''/a.png'']\<rparr>,
      \<lparr>tag = ''img'', attrs = [''srcset'' \<mapsto> ''/b.png 1x, /c.png 2x'']\<rparr>,
      \<lparr>tag = ''div'', attrs = [''style'' \<mapsto> ''background-image:url('/d.jpg')'']\<rparr>]"

text \<open>
  Two sessions whose state is a natural number. In the first the document is 2000
  pixels high and the viewport 800; the state is the scroll offset, which stops at
  1200. In the second the document grows by 1000 pixels with every scroll; the state
  counts the scrolls.
\<close>

definition short_page_driver :: "snapshot \<Rightarrow> nat driver" where
  "short_page_driver page =
     \<lparr>page_source = (\<lambda>s. page),
      scroll_height = (\<lambda>s. 2000),
      page_y_offset = (\<lambda>s. int s),
      inner_height = (\<lambda>s. 800),
      scroll_by = (\<lambda>s. min (s + 640) 1200),
      sleep = (\<lambda>n s. s),
      load_page = (\<lambda>url s. 0)\<rparr>"

definition growing_page_driver :: "snapshot \<Rightarrow> nat driver" where
  "growing_page_driver page =
     \<lparr>page_source = (\<lambda>s. page),
      scroll_height = (\<lambda>s. 2000 + 1000 * int s),
      page_y_offset = (\<lambda>s. 640 * int s),
      inner_height = (\<lambda>s. 800),
      scroll_by = Suc,
      sleep = (\<lambda>n s. s),
      load_page = (\<lambda>url s. 0)\<rparr>"

text \<open>
  A session in which scrolling replaces the content: \<open>/a.png\<close> is shown before the first
  scroll and \<open>/b.png\<close> after it.
\<close>

definition swapping_page_driver :: "nat driver" where
  "swapping_page_driver =
     \<lparr>page_source = (\<lambda>s. if s = 0 then [\<lparr>tag = ''img'', attrs = [''src'' \<mapsto> ''/a.png'']\<rparr>]
                          else [\<lparr>tag = ''img'', attrs = [''src'' \<mapsto> ''/b.png'']\<rparr>]),
      scroll_height = (\<lambda>s. 2000),
      page_y_offset = (\<lambda>s. int s),
      inner_height = (\<lambda>s. 800),
      scroll_by = (\<lambda>s. min (s + 640) 1200),
      sleep = (\<lambda>n s. s),
      load_page = (\<lambda>url s. 0)\<rparr>"

text \<open>
  An environment for the examples. Each table holds the values of the library function
  at the arguments the examples use (\<open>urljoin\<close> returns its other argument when one is
  empty, lowers the scheme of an absolute reference whose scheme is the base's, and
  returns a reference with another scheme as it is);
  an argument outside a table is reported as an error, so that no example rests on it.
  The server answers a request for \<open>a.png\<close> and \<open>b.png\<close> with a PNG, for \<open>missing.png\<close>
  with status 404, and for \<open>photo\<close> with an SVG document whose type only the full
  retrieval reveals.
\<close>

definition sample_urljoin :: "string \<Rightarrow> string \<Rightarrow> error + string" where
  "sample_urljoin base url =
     (if base = [] then Inr url
      else if url = [] then Inr base
      else if base = ''HTTPS://EX.com/'' \<and> url = ''HTTPS://EX.com/'' then Inr ''https://EX.com/''
      else if base = ''https://ex.com/'' \<and> url = ''/a.png'' then Inr ''https://ex.com/a.png''
      else if base = ''https://ex.com/'' \<and> url = ''DATA:image/svg+xml,<svg/>''
      then Inr ''DATA:image/svg+xml,<svg/>''
      else if base = ''a/b/'' \<and> url = ''c'' then Inr ''a/b/c''
      else if base = ''a/b/'' \<and> url = ''a/b/c'' then Inr ''a/b/a/b/c''
      else Inl (Error ''not tabulated''))"

definition sample_md5 :: "string \<Rightarrow> string" where
  "sample_md5 url =
     (if url = ''https://ex.com/a.png'' then ''c98b0c87944d062e1bacda2032deb838''
      else if url = ''https://ex.com/b.png'' then ''8bc2eca855cfd47a8d4a8db68cb4be1b''
      else if url = ''https://ex.com/missing.png'' then ''6db9c7f1a59266be2014e3863544ae7a''
      else if url = ''https://ex.com/photo'' then ''54b45fb13bbb723ed1fc8866fb9ff772''
      else ''00000000000000000000000000000000'')"

definition sample_ext :: "string \<Rightarrow> error + string" where
  "sample_ext url =
     (if url \<in> {''https://ex.com/a.png'', ''https://ex.com/b.png'', ''https://ex.com/missing.png''}
      then Inr ''.png''
      else if url = ''https://ex.com/photo'' then Inr []
      else Inl (Error ''not tabulated''))"

definition sample_head :: "string \<Rightarrow> error + string" where
  "sample_head url =
     (if url \<in> {''https://ex.com/a.png'', ''https://ex.com/b.png''} then Inr ''image/png''
      else if url = ''https://ex.com/missing.png'' then Inr ''text/html''
      else if url = ''https://ex.com/photo'' then Inr []
      else Inl (Error ''ConnectionError''))"

definition sample_get :: "string \<Rightarrow> error + response" where
  "sample_get url =
     (if url = ''https://ex.com/a.png''
      then Inr \<lparr>resp_status = 200, resp_content_type = ''image/png'', resp_content = ''PNG-A''\<rparr>
      else if url = ''https://ex.com/b.png''
      then Inr \<lparr>resp_status = 200, resp_content_type = ''image/png'', resp_content = ''PNG-B''\<rparr>
      else if url = ''https://ex.com/missing.png''
      then Inr \<lparr>resp_status = 404, resp_content_type = ''text/html'', resp_content = ''Not Found''\<rparr>
      else if url = ''https://ex.com/photo''
      then Inr \<lparr>resp_status = 200, resp_content_type = ''image/svg+xml'', resp_content = ''<svg/>''\<rparr>
      else Inl (Error ''ConnectionError''))"

definition sample_env :: env where
  "sample_env =
     \<lparr>urljoin = sample_urljoin, http_head = sample_head, http_get = sample_get,
      md5_hex = sample_md5, path_ext = sample_ext, open_fails = (\<lambda>path. False),
      write_fails = (\<lambda>path body. None)\<rparr>"

definition empty_world :: world where
  "empty_world = \<lparr>files = Map.empty, net_log = []\<rparr>"

definition a_png_on_disk :: world where
  \<comment> \<open>the destination directory after \<open>https://ex.com/a.png\<close> has been saved\<close>
  "a_png_on_disk =
     \<lparr>files = [''images/c98b0c87944d062e1bacda2032deb838.png'' \<mapsto> ''PNG-A''], net_log = []\<rparr>"

text \<open>
  The full retrievals of a log that the server answered with a success status, that is,
  those on which \<open>raise_for_status\<close> does not raise.
\<close>

definition successful_retrievals :: "env \<Rightarrow> net_event list \<Rightarrow> nat" where
  "successful_retrievals env log =
     length (filter (\<lambda>ev. case ev of
                            Head url \<Rightarrow> False
                          | Get url \<Rightarrow>
                              (case http_get env url of
                                 Inl e \<Rightarrow> False
                               | Inr response \<Rightarrow> raise_for_status response = Inr response)) log)"

text \<open>
  The file that \<open>download_image\<close> computes for a URL exists in the destination directory.
\<close>

definition on_disk :: "env \<Rightarrow> string \<Rightarrow> string \<Rightarrow> world \<Rightarrow> string \<Rightarrow> bool" where
  "on_disk env base_url save_dir w url =
     (case resolve_url env url base_url of
        Inl e \<Rightarrow> False
      | Inr url' \<Rightarrow>
          (case target_path env url' save_dir of
             Inl e \<Rightarrow> False
           | Inr filepath \<Rightarrow> files w filepath \<noteq> None))"

section \<open>Properties of the extractor\<close>

lemma attr_refs_in_img_refs:
  assumes "a \<in> {''data-src'', ''data-original'', ''data-lazy-src'', ''data-url'', ''data-lazysrc''}"
    and "attrs img a = Some v"
  shows "v \<in> img_refs img"
proof -
  have "v \<in> attr_refs img a"
    using assms(2) by (simp add: attr_refs_def)
  moreover have "a = ''data-src'' \<or> a \<in> set lazy_attrs"
    using assms(1) by (simp add: lazy_attrs_def)
  ultimately show ?thesis
    unfolding img_refs_def by blast
qed

lemma img_refs_in_extract:
  assumes "img \<in> set page" and "tag img = ''img''"
  shows "img_refs img \<subseteq> extract_images_from_current_state page"
  using assms by (auto simp: extract_images_from_current_state_def find_all_def)

text \<open>
  Claim C10. An \<open>img\<close> whose \<open>src\<close> (or \<open>srcset\<close>) is the empty string yields what it
  would yield without that attribute. For \<open>data-src\<close>, \<open>data-original\<close>,
  \<open>data-lazy-src\<close>, \<open>data-url\<close> and \<open>data-lazysrc\<close> presence is enough: the value of such
  an attribute of an \<open>img\<close> of the page is in the extracted set, whatever the value, the
  empty string included.
\<close>

theorem empty_src_skipped_lazy_attribute_kept:
  "img_refs (img\<lparr>attrs := (attrs img)(''src'' \<mapsto> [])\<rparr>)
     = img_refs (img\<lparr>attrs := (attrs img)(''src'' := None)\<rparr>)
   \<and> img_refs (img\<lparr>attrs := (attrs img)(''srcset'' \<mapsto> [])\<rparr>)
     = img_refs (img\<lparr>attrs := (attrs img)(''srcset'' := None)\<rparr>)
   \<and> (a \<in> {''data-src'', ''data-original'', ''data-lazy-src'', ''data-url'', ''data-lazysrc''}
        \<and> attrs img a = Some v \<and> tag img = ''img'' \<and> img \<in> set page
      \<longrightarrow> v \<in> extract_images_from_current_state page)"
proof (intro conjI impI)
  show "img_refs (img\<lparr>attrs := (attrs img)(''src'' \<mapsto> [])\<rparr>)
     = img_refs (img\<lparr>attrs := (attrs img)(''src'' := None)\<rparr>)"
    by (simp add: img_refs_def attr_refs_def lazy_attrs_def)
  show "img_refs (img\<lparr>attrs := (attrs img)(''srcset'' \<mapsto> [])\<rparr>)
     = img_refs (img\<lparr>attrs := (attrs img)(''srcset'' := None)\<rparr>)"
    by (simp add: img_refs_def attr_refs_def lazy_attrs_def)
next
  assume h: "a \<in> {''data-src'', ''data-original'', ''data-lazy-src'', ''data-url'', ''data-lazysrc''}
        \<and> attrs img a = Some v \<and> tag img = ''img'' \<and> img \<in> set page"
  then have "v \<in> img_refs img"
    using attr_refs_in_img_refs by blast
  with h show "v \<in> extract_images_from_current_state page"
    using img_refs_in_extract by blast
qed

theorem empty_src_skipped_lazy_attribute_kept_witness:
  "[] \<in> extract_images_from_current_state [\<lparr>tag = ''img'', attrs = [''data-src'' \<mapsto> []]\<rparr>]
   \<and> ''o'' \<in> extract_images_from_current_state [\<lparr>tag = ''img'', attrs = [''data-original'' \<mapsto> ''o'']\<rparr>]
   \<and> ''l'' \<in> extract_images_from_current_state [\<lparr>tag = ''img'', attrs = [''data-lazy-src'' \<mapsto> ''l'']\<rparr>]
   \<and> ''u'' \<in> extract_images_from_current_state [\<lparr>tag = ''img'', attrs = [''data-url'' \<mapsto> ''u'']\<rparr>]
   \<and> [] \<in> extract_images_from_current_state [\<lparr>tag = ''img'', attrs = [''data-lazysrc'' \<mapsto> []]\<rparr>]
   \<and> img_refs \<lparr>tag = ''img'', attrs = [''src'' \<mapsto> [], ''data-src'' \<mapsto> []]\<rparr> = {[]}"
proof -
  let ?img = "\<lambda>a v. \<lparr>tag = ''img'', attrs = [a \<mapsto> v]\<rparr>"
  have 1: "[] \<in> extract_images_from_current_state [?img ''data-src'' []]"
    using empty_src_skipped_lazy_attribute_kept
      [of "?img ''data-src'' []" "''data-src''" "[]" "[?img ''data-src'' []]"] by simp
  have 2: "''o'' \<in> extract_images_from_current_state [?img ''data-original'' ''o'']"
    using empty_src_skipped_lazy_attribute_kept
      [of "?img ''data-original'' ''o''" "''data-original''" "''o''" "[?img ''data-original'' ''o'']"]
    by simp
  have 3: "''l'' \<in> extract_images_from_current_state [?img ''data-lazy-src'' ''l'']"
    using empty_src_skipped_lazy_attribute_kept
      [of "?img ''data-lazy-src'' ''l''" "''data-lazy-src''" "''l''" "[?img ''data-lazy-src'' ''l'']"]
    by simp
  have 4: "''u'' \<in> extract_images_from_current_state [?img ''data-url'' ''u'']"
    using empty_src_skipped_lazy_attribute_kept
      [of "?img ''data-url'' ''u''" "''data-url''" "''u''" "[?img ''data-url'' ''u'']"] by simp
  have 5: "[] \<in> extract_images_from_current_state [?img ''data-lazysrc'' []]"
    using empty_src_skipped_lazy_attribute_kept
      [of "?img ''data-lazysrc'' []" "''data-lazysrc''" "[]" "[?img ''data-lazysrc'' []]"] by simp
  have "img_refs ((?img ''data-src'' [])\<lparr>attrs := (attrs (?img ''data-src'' []))(''src'' \<mapsto> [])\<rparr>)
      = img_refs ((?img ''data-src'' [])\<lparr>attrs := (attrs (?img ''data-src'' []))(''src'' := None)\<rparr>)"
    using empty_src_skipped_lazy_attribute_kept [of "?img ''data-src'' []"] by blast
  then have 6: "img_refs \<lparr>tag = ''img'', attrs = [''src'' \<mapsto> [], ''data-src'' \<mapsto> []]\<rparr> = {[]}"
    by (simp add: img_refs_def attr_refs_def lazy_attrs_def fun_upd_twist)
  from 1 2 3 4 5 6 show ?thesis by simp
qed

lemma spec_example_srcset:
  "srcset_findall ''/b.png 1x, /c.png 2x'' = [''/b.png'', ''/c.png'']"
  by code_simp

text \<open>
  Claim C8. The claim is that every srcset value gives exactly the URL of each candidate.
  The pattern does so for \<open>/b.png 1x, /c.png 2x\<close> (lemma \<open>spec_example_srcset\<close>), but it
  only strips a descriptor made of digits and one \<open>w\<close> or \<open>x\<close>, and only a comma that
  follows white space or such a descriptor. For \<open>a.png 1.5x, b.png 2x\<close> it collects the
  descriptor \<open>1.5x,\<close> as a reference; for \<open>a.png, b.png 2x\<close> it keeps the comma in
  \<open>a.png,\<close>.
\<close>

theorem srcset_descriptor_collected:
  "srcset_findall ''a.png 1.5x, b.png 2x'' = [''a.png'', ''1.5x,'', ''b.png'']
   \<and> srcset_findall ''a.png, b.png 2x'' = [''a.png,'', ''b.png'']"
  by code_simp

theorem srcset_descriptor_collected_witness:
  "''1.5x,'' \<in> img_refs \<lparr>tag = ''img'', attrs = [''srcset'' \<mapsto> ''a.png 1.5x, b.png 2x'']\<rparr>"
  using srcset_descriptor_collected by (simp add: img_refs_def)

lemma extract_example_page:
  "extract_images_from_current_state example_page
     = {''/a.png'', ''/b.png'', ''/c.png'', ''/d.jpg''}"
  by code_simp

section \<open>Properties of the scroll harvester\<close>

lemma scroll_loop_done:
  "\<not> a < m \<Longrightarrow>
   scroll_loop d m s urls h a n = \<lparr>img_urls = urls, scroll_attempts = a, passes = n, surface = s\<rparr>"
  by (subst scroll_loop.simps) simp

lemma scroll_loop_stop:
  assumes "a < m"
    and "scroll_height d (sleep d 1 (scroll_by d s)) = h"
    and "scroll_height d (sleep d 1 (scroll_by d s))
           \<le> page_y_offset d (sleep d 1 (scroll_by d s)) + inner_height d (sleep d 1 (scroll_by d s))"
  shows "scroll_loop d m s urls h a n =
           \<lparr>img_urls = urls \<union> extract_images_from_current_state (page_source d s)
                \<union> extract_images_from_current_state
                    (page_source d (sleep d 2 (sleep d 1 (scroll_by d s)))),
            scroll_attempts = a, passes = Suc n,
            surface = sleep d 2 (sleep d 1 (scroll_by d s))\<rparr>"
  using assms by (subst scroll_loop.simps) (simp add: Let_def)

lemma scroll_loop_step:
  assumes "a < m"
    and "\<not> (scroll_height d (sleep d 1 (scroll_by d s)) = h
           \<and> scroll_height d (sleep d 1 (scroll_by d s))
               \<le> page_y_offset d (sleep d 1 (scroll_by d s))
                   + inner_height d (sleep d 1 (scroll_by d s)))"
  shows "scroll_loop d m s urls h a n =
           scroll_loop d m (sleep d 1 (scroll_by d s))
             (urls \<union> extract_images_from_current_state (page_source d s))
             (scroll_height d (sleep d 1 (scroll_by d s))) (Suc a) (Suc n)"
  using assms by (subst scroll_loop.simps) (auto simp add: Let_def)

lemma scroll_loop_passes:
  "passes (scroll_loop d m s urls h a n) \<le> n + (m - a)"
proof (induction d m s urls h a n rule: scroll_loop.induct)
  case (1 d m s urls h a n)
  let ?s1 = "sleep d 1 (scroll_by d s)"
  let ?stop = "scroll_height d ?s1 = h
     \<and> scroll_height d ?s1 \<le> page_y_offset d ?s1 + inner_height d ?s1"
  consider (finished) "\<not> a < m" | (stop) "a < m" "?stop" | (step) "a < m" "\<not> ?stop"
    by blast
  then show ?case
  proof cases
    case finished
    then show ?thesis by (simp add: scroll_loop_done)
  next
    case stop
    then show ?thesis by (simp add: scroll_loop_stop)
  next
    case step
    have "passes (scroll_loop d m ?s1 (urls \<union> extract_images_from_current_state (page_source d s))
              (scroll_height d ?s1) (Suc a) (Suc n)) \<le> Suc n + (m - Suc a)"
      using "1.IH" [OF step(1) refl refl refl refl] step(2) by simp
    moreover have "Suc n + (m - Suc a) = n + (m - a)"
      using step(1) by simp
    ultimately show ?thesis
      by (simp only: scroll_loop_step [OF step])
  qed
qed

lemma scroll_loop_attempts:
  "a \<le> m \<Longrightarrow> scroll_attempts (scroll_loop d m s urls h a n) \<le> m"
proof (induction d m s urls h a n rule: scroll_loop.induct)
  case (1 d m s urls h a n)
  let ?s1 = "sleep d 1 (scroll_by d s)"
  let ?stop = "scroll_height d ?s1 = h
     \<and> scroll_height d ?s1 \<le> page_y_offset d ?s1 + inner_height d ?s1"
  consider (finished) "\<not> a < m" | (stop) "a < m" "?stop" | (step) "a < m" "\<not> ?stop"
    by blast
  then show ?case
  proof cases
    case finished
    with "1.prems" show ?thesis by (simp add: scroll_loop_done)
  next
    case stop
    then show ?thesis by (simp add: scroll_loop_stop)
  next
    case step
    have "scroll_attempts (scroll_loop d m ?s1 (urls \<union> extract_images_from_current_state (page_source d s))
              (scroll_height d ?s1) (Suc a) (Suc n)) \<le> m"
      using "1.IH" [OF step(1) refl refl refl refl] step by simp
    then show ?thesis
      by (simp only: scroll_loop_step [OF step])
  qed
qed

lemma scroll_loop_fixed_extract:
  "(\<forall>s'. extract_images_from_current_state (page_source d s') = R) \<Longrightarrow>
   img_urls (scroll_loop d m s urls h a n) = (if a < m then urls \<union> R else urls)"
proof (induction d m s urls h a n rule: scroll_loop.induct)
  case (1 d m s urls h a n)
  have R: "\<And>s'. extract_images_from_current_state (page_source d s') = R"
    using "1.prems" by simp
  let ?s1 = "sleep d 1 (scroll_by d s)"
  let ?stop = "scroll_height d ?s1 = h
     \<and> scroll_height d ?s1 \<le> page_y_offset d ?s1 + inner_height d ?s1"
  consider (finished) "\<not> a < m" | (stop) "a < m" "?stop" | (step) "a < m" "\<not> ?stop"
    by blast
  then show ?case
  proof cases
    case finished
    then show ?thesis by (simp add: scroll_loop_done)
  next
    case stop
    then show ?thesis by (simp add: scroll_loop_stop R)
  next
    case step
    have "img_urls (scroll_loop d m ?s1 (urls \<union> extract_images_from_current_state (page_source d s))
              (scroll_height d ?s1) (Suc a) (Suc n)) =
            (if Suc a < m then (urls \<union> extract_images_from_current_state (page_source d s)) \<union> R
             else urls \<union> extract_images_from_current_state (page_source d s))"
      using "1.IH" [OF step(1) refl refl refl refl] step(2) "1.prems" by simp
    then have "img_urls (scroll_loop d m ?s1 (urls \<union> extract_images_from_current_state (page_source d s))
              (scroll_height d ?s1) (Suc a) (Suc n)) = urls \<union> R"
      by (simp add: R)
    then show ?thesis
      using step(1) by (simp only: scroll_loop_step [OF step] if_True)
  qed
qed

lemma harvest_fixed_page:
  assumes "\<forall>s'. page_source d s' = page"
  shows "img_urls (get_image_urls_from_page d url s) = extract_images_from_current_state page"
proof -
  have "\<forall>s'. extract_images_from_current_state (page_source d s')
          = extract_images_from_current_state page"
    using assms by simp
  then show ?thesis
    unfolding get_image_urls_from_page_def Let_def
    by (simp add: scroll_loop_fixed_extract max_scroll_attempts_def)
qed

lemma UN_lessThan_Suc_shift:
  "(\<Union>k<Suc j. F k) = F 0 \<union> (\<Union>k<j. F (Suc k))"
proof -
  have "{..<Suc j} = insert 0 (Suc ` {..<j})"
    by (rule lessThan_Suc_eq_insert_0)
  then show ?thesis
    by (simp add: image_image)
qed

lemma scroll_loop_samples:
  "n \<le> passes (scroll_loop d m s urls h a n)
   \<and> (a < m \<longrightarrow> Suc n \<le> passes (scroll_loop d m s urls h a n))
   \<and> img_urls (scroll_loop d m s urls h a n)
       = urls
         \<union> (\<Union>k<passes (scroll_loop d m s urls h a n) - n.
              extract_images_from_current_state
                (page_source d (((\<lambda>x. sleep d 1 (scroll_by d x)) ^^ k) s)))
         \<union> (if scroll_attempts (scroll_loop d m s urls h a n) < m
            then extract_images_from_current_state
                   (page_source d (sleep d 2
                      (((\<lambda>x. sleep d 1 (scroll_by d x)) ^^
                          (passes (scroll_loop d m s urls h a n) - n)) s)))
            else {})"
proof (induction d m s urls h a n rule: scroll_loop.induct)
  case (1 d m s urls h a n)
  let ?step = "\<lambda>x. sleep d 1 (scroll_by d x)"
  let ?E = "\<lambda>x. extract_images_from_current_state (page_source d x)"
  let ?s1 = "sleep d 1 (scroll_by d s)"
  let ?stop = "scroll_height d ?s1 = h
     \<and> scroll_height d ?s1 \<le> page_y_offset d ?s1 + inner_height d ?s1"
  consider (finished) "\<not> a < m" | (stop) "a < m" "?stop" | (step) "a < m" "\<not> ?stop"
    by blast
  then show ?case
  proof cases
    case finished
    then show ?thesis by (simp add: scroll_loop_done)
  next
    case stop
    then show ?thesis by (simp add: scroll_loop_stop lessThan_Suc)
  next
    case step
    let ?r = "scroll_loop d m ?s1 (urls \<union> ?E s) (scroll_height d ?s1) (Suc a) (Suc n)"
    have eq: "scroll_loop d m s urls h a n = ?r"
      by (rule scroll_loop_step [OF step])
    have IH: "Suc n \<le> passes ?r
      \<and> img_urls ?r = (urls \<union> ?E s)
         \<union> (\<Union>k<passes ?r - Suc n. ?E ((?step ^^ k) ?s1))
         \<union> (if scroll_attempts ?r < m then ?E (sleep d 2 ((?step ^^ (passes ?r - Suc n)) ?s1))
            else {})"
      using "1.IH" [OF step(1) refl refl refl refl] step(2) by simp
    obtain j where j: "passes ?r - n = Suc j" "passes ?r - Suc n = j"
      using IH by (metis Suc_diff_le diff_Suc_Suc)
    have shift: "(?step ^^ k) ?s1 = (?step ^^ Suc k) s" for k
      using funpow_swap1 [of ?step k s] by simp
    have "(\<Union>k<Suc j. ?E ((?step ^^ k) s)) = ?E s \<union> (\<Union>k<j. ?E ((?step ^^ Suc k) s))"
      using UN_lessThan_Suc_shift [of "\<lambda>k. ?E ((?step ^^ k) s)" j] by simp
    then have "img_urls ?r = urls
         \<union> (\<Union>k<passes ?r - n. ?E ((?step ^^ k) s))
         \<union> (if scroll_attempts ?r < m then ?E (sleep d 2 ((?step ^^ (passes ?r - n)) s))
            else {})"
      using IH j shift by (simp add: Un_assoc)
    moreover have "n \<le> passes ?r" and "Suc n \<le> passes ?r"
      using IH by simp_all
    ultimately show ?thesis
      unfolding eq by blast
  qed
qed

text \<open>
  Claim C2, as the code has it. The harvester does not resolve: at every pass of the loop
  it extracts the references of the current snapshot and accumulates them as they are
  written in the page. The result is exactly the union of what is extracted at the states
  visited: the state after loading and after each scroll and wait, one for every pass of
  the loop (there is at least one), and the state of the delayed final pass when the
  stopping condition was met. For a session that shows the page of the scenario the
  result is the four references as written in the page. Resolution against the base URL
  is done later, by \<open>download_image\<close>.
\<close>

theorem harvest_accumulates_raw_references:
  "1 \<le> passes (get_image_urls_from_page d url s)
   \<and> img_urls (get_image_urls_from_page d url s)
       = (\<Union>k<passes (get_image_urls_from_page d url s).
            extract_images_from_current_state
              (page_source d (((\<lambda>x. sleep d 1 (scroll_by d x)) ^^ k) (load_page d url s))))
         \<union> (if scroll_attempts (get_image_urls_from_page d url s) < 5
            then extract_images_from_current_state
                   (page_source d (sleep d 2
                      (((\<lambda>x. sleep d 1 (scroll_by d x)) ^^
                          passes (get_image_urls_from_page d url s)) (load_page d url s))))
            else {})
   \<and> ((\<forall>s'. page_source d s' = example_page)
      \<longrightarrow> img_urls (get_image_urls_from_page d url s)
            = {''/a.png'', ''/b.png'', ''/c.png'', ''/d.jpg''})"
proof (intro conjI impI)
  let ?s0 = "load_page d url s"
  have r: "get_image_urls_from_page d url s = scroll_loop d 5 ?s0 {} (scroll_height d ?s0) 0 0"
    by (simp add: get_image_urls_from_page_def Let_def max_scroll_attempts_def)
  note samples = scroll_loop_samples [of 0 d 5 ?s0 "{}" "scroll_height d ?s0" 0]
  show "1 \<le> passes (get_image_urls_from_page d url s)"
    unfolding r using samples by simp
  show "img_urls (get_image_urls_from_page d url s)
       = (\<Union>k<passes (get_image_urls_from_page d url s).
            extract_images_from_current_state
              (page_source d (((\<lambda>x. sleep d 1 (scroll_by d x)) ^^ k) (load_page d url s))))
         \<union> (if scroll_attempts (get_image_urls_from_page d url s) < 5
            then extract_images_from_current_state
                   (page_source d (sleep d 2
                      (((\<lambda>x. sleep d 1 (scroll_by d x)) ^^
                          passes (get_image_urls_from_page d url s)) (load_page d url s))))
            else {})"
    unfolding r using samples by simp
next
  assume "\<forall>s'. page_source d s' = example_page"
  then show "img_urls (get_image_urls_from_page d url s)
            = {''/a.png'', ''/b.png'', ''/c.png'', ''/d.jpg''}"
    by (simp add: harvest_fixed_page extract_example_page)
qed

lemma swapping_page_run:
  "passes (get_image_urls_from_page swapping_page_driver ''https://ex.com/'' 0) = 2
   \<and> scroll_attempts (get_image_urls_from_page swapping_page_driver ''https://ex.com/'' 0) = 1"
  by code_simp

lemma swapping_page_extracts:
  "extract_images_from_current_state [\<lparr>tag = ''img'', attrs = [''src'' \<mapsto> ''/a.png'']\<rparr>]
     = {''/a.png''}
   \<and> extract_images_from_current_state [\<lparr>tag = ''img'', attrs = [''src'' \<mapsto> ''/b.png'']\<rparr>]
     = {''/b.png''}"
  by code_simp

theorem harvest_accumulates_raw_references_witness:
  "img_urls (get_image_urls_from_page swapping_page_driver ''https://ex.com/'' 0)
     = {''/a.png'', ''/b.png''}"
proof -
  let ?r = "get_image_urls_from_page swapping_page_driver ''https://ex.com/'' 0"
  let ?step = "\<lambda>x. sleep swapping_page_driver 1 (scroll_by swapping_page_driver x)"
  have p: "passes ?r = 2" and a: "scroll_attempts ?r = 1"
    using swapping_page_run by simp_all
  have "img_urls ?r
       = (\<Union>k<passes ?r.
            extract_images_from_current_state
              (page_source swapping_page_driver ((?step ^^ k)
                 (load_page swapping_page_driver ''https://ex.com/'' 0))))
         \<union> (if scroll_attempts ?r < 5
            then extract_images_from_current_state
                   (page_source swapping_page_driver (sleep swapping_page_driver 2
                      ((?step ^^ passes ?r) (load_page swapping_page_driver ''https://ex.com/'' 0))))
            else {})"
    using harvest_accumulates_raw_references [of swapping_page_driver "''https://ex.com/''" 0]
    by blast
  then have "img_urls ?r
       = (\<Union>k<2.
            extract_images_from_current_state
              (page_source swapping_page_driver ((?step ^^ k)
                 (load_page swapping_page_driver ''https://ex.com/'' 0))))
         \<union> (if (1::nat) < 5
            then extract_images_from_current_state
                   (page_source swapping_page_driver (sleep swapping_page_driver 2
                      ((?step ^^ 2) (load_page swapping_page_driver ''https://ex.com/'' 0))))
            else {})"
    unfolding p a .
  also have "\<dots> = {''/a.png'', ''/b.png''}"
    using swapping_page_extracts
    by (simp add: swapping_page_driver_def numeral_2_eq_2 lessThan_Suc insert_commute)
  finally show ?thesis .
qed

text \<open>
  The claim as stated fails on the page of the scenario: the harvest is not the set of
  the four absolute URLs.
\<close>

theorem harvest_not_absolute_counterexample:
  "img_urls (get_image_urls_from_page (short_page_driver example_page) ''https://ex.com/'' 0)
     \<noteq> {''https://ex.com/a.png'', ''https://ex.com/b.png'', ''https://ex.com/c.png'',
         ''https://ex.com/d.jpg''}"
proof -
  have "\<forall>s'. page_source (short_page_driver example_page) s' = example_page"
    by (simp add: short_page_driver_def)
  then have "img_urls (get_image_urls_from_page (short_page_driver example_page) ''https://ex.com/'' 0)
      = {''/a.png'', ''/b.png'', ''/c.png'', ''/d.jpg''}"
    by (simp add: harvest_fixed_page extract_example_page)
  then have "''/a.png''
      \<in> img_urls (get_image_urls_from_page (short_page_driver example_page) ''https://ex.com/'' 0)"
    by simp
  moreover have "''/a.png'' \<notin> {''https://ex.com/a.png'', ''https://ex.com/b.png'',
      ''https://ex.com/c.png'', ''https://ex.com/d.jpg''}"
    by simp
  ultimately show ?thesis by metis
qed

text \<open>
  Claim C6. The loop is a total function, and whatever the session does the loop body
  is entered at most as many times as the maximum allows: at most five times in
  \<open>get_image_urls_from_page\<close>, where the counter \<open>scroll_attempts\<close> ends at five at most.
\<close>

theorem scroll_loop_bounded:
  "passes (scroll_loop d m s urls h 0 0) \<le> m
   \<and> passes (get_image_urls_from_page d url s) \<le> 5
   \<and> scroll_attempts (get_image_urls_from_page d url s) \<le> 5"
proof (intro conjI)
  show "passes (scroll_loop d m s urls h 0 0) \<le> m"
    using scroll_loop_passes [of d m s urls h 0 0] by simp
  show "passes (get_image_urls_from_page d url s) \<le> 5"
    unfolding get_image_urls_from_page_def Let_def max_scroll_attempts_def
    using scroll_loop_passes [of d 5 "load_page d url s" "{}" _ 0 0] by simp
  show "scroll_attempts (get_image_urls_from_page d url s) \<le> 5"
    unfolding get_image_urls_from_page_def Let_def max_scroll_attempts_def
    using scroll_loop_attempts [of 0 5 d "load_page d url s" "{}"] by simp
qed

lemma growing_page_five_passes:
  "5 \<le> passes (get_image_urls_from_page (growing_page_driver []) ''https://ex.com/'' 0)"
  by code_simp

theorem scroll_loop_bounded_witness:
  "passes (get_image_urls_from_page (growing_page_driver []) ''https://ex.com/'' 0) = 5"
  using scroll_loop_bounded [of "growing_page_driver []" 5 0 "{}" 0 "''https://ex.com/''"]
    growing_page_five_passes
  by simp

section \<open>Properties of the fetcher\<close>

lemma contains_sublist: "contains s sub = sublist sub s"
  by (induction s) (simp_all add: sublist_Cons_right)

lemma lower_svg: "lower ''svg'' = ''svg''"
  by (simp add: lower_def lower_char_def)

lemma contains_lower_svg:
  assumes "contains s ''svg''"
  shows "contains (lower s) ''svg''"
proof -
  obtain p q where "s = p @ ''svg'' @ q"
    using assms unfolding contains_sublist sublist_def by blast
  then have "lower s = lower p @ ''svg'' @ lower q"
    using lower_svg by (simp add: lower_def)
  then show ?thesis
    unfolding contains_sublist sublist_def by blast
qed

lemma contains_svg_of_path:
  assumes "url = pre @ path @ post" and "endswith (lower path) ''.svg''"
  shows "contains (lower url) ''svg''"
proof -
  obtain zs where "lower path = zs @ ''.svg''"
    using assms(2) unfolding endswith_def suffix_def by blast
  then have "lower url = (lower pre @ zs @ ''.'') @ ''svg'' @ lower post"
    using assms(1) by (simp add: lower_def)
  then show ?thesis
    unfolding contains_sublist sublist_def by blast
qed

lemma is_svg_image_substring:
  "contains (lower url) ''svg'' \<Longrightarrow> is_svg_image url content_type"
  by (simp add: is_svg_image_def)

lemma is_svg_image_content_type:
  assumes "contains ct ''svg''"
  shows "is_svg_image url (Some ct)"
proof -
  have "ct \<noteq> []"
    using assms by auto
  then show ?thesis
    using contains_lower_svg [OF assms] by (simp add: is_svg_image_def)
qed

lemma data_not_resolved:
  "startswith url ''data:'' \<Longrightarrow> resolve_url env url base_url = Inr url"
  by (simp add: resolve_url_def)

lemma http_not_resolved:
  "startswith url ''http://'' \<or> startswith url ''https://'' \<Longrightarrow> resolve_url env url base_url = Inr url"
  by (auto simp add: resolve_url_def)

lemma retrieve_cases:
  "retrieve env url filepath w = (out, w') \<Longrightarrow>
     (files w' = files w \<and> (\<forall>p. out \<noteq> Saved p))
   \<or> (files w filepath = None \<and> (out = Saved filepath \<or> (\<exists>e. out = Failed e))
        \<and> (\<exists>body. files w' = (files w)(filepath \<mapsto> body)))"
  by (auto simp: retrieve_def Let_def split: if_splits sum.splits option.splits)

lemma retrieve_present:
  "files w filepath \<noteq> None \<Longrightarrow> retrieve env url filepath w = (SkippedDuplicateOnDisk, w)"
  by (auto simp add: retrieve_def)

lemma retrieve_files_only:
  assumes "files w = files v"
  shows "fst (retrieve env url filepath w) = fst (retrieve env url filepath v)
       \<and> files (snd (retrieve env url filepath w)) = files (snd (retrieve env url filepath v))"
  using assms by (auto simp add: retrieve_def Let_def split: sum.splits option.splits)

lemma store_files_only:
  assumes "files w = files v"
  shows "fst (store env url save_dir w) = fst (store env url save_dir v)
       \<and> files (snd (store env url save_dir w)) = files (snd (store env url save_dir v))"
  using retrieve_files_only [OF assms] assms by (simp add: store_def split: sum.splits)

lemma probe_and_store_files_only:
  assumes "files w = files v"
  shows "fst (probe_and_store env url save_dir w) = fst (probe_and_store env url save_dir v)
       \<and> files (snd (probe_and_store env url save_dir w))
           = files (snd (probe_and_store env url save_dir v))"
proof -
  have "files (w\<lparr>net_log := net_log w @ [Head url]\<rparr>) = files (v\<lparr>net_log := net_log v @ [Head url]\<rparr>)"
    using assms by simp
  from store_files_only [OF this] assms show ?thesis
    by (simp add: probe_and_store_def Let_def split: sum.splits)
qed

lemma download_image_outcome_files_only:
  assumes "files w = files v"
  shows "fst (download_image_outcome env url base_url save_dir w)
           = fst (download_image_outcome env url base_url save_dir v)
       \<and> files (snd (download_image_outcome env url base_url save_dir w))
           = files (snd (download_image_outcome env url base_url save_dir v))"
  using probe_and_store_files_only [OF assms] assms
  by (simp add: download_image_outcome_def split: sum.splits)

lemma download_all_files_only:
  "files w = files v \<Longrightarrow>
   fst (download_all env urls base_url save_dir w) = fst (download_all env urls base_url save_dir v)
   \<and> files (snd (download_all env urls base_url save_dir w))
       = files (snd (download_all env urls base_url save_dir v))"
proof (induction urls arbitrary: w v)
  case Nil
  then show ?case by simp
next
  case (Cons u us)
  have step: "fst (download_image_outcome env u base_url save_dir w)
           = fst (download_image_outcome env u base_url save_dir v)
       \<and> files (snd (download_image_outcome env u base_url save_dir w))
           = files (snd (download_image_outcome env u base_url save_dir v))"
    using download_image_outcome_files_only [OF Cons.prems] .
  then have "files (snd (download_image_outcome env u base_url save_dir w))
           = files (snd (download_image_outcome env u base_url save_dir v))"
    by simp
  from Cons.IH [OF this] step show ?case
    by (simp add: Let_def)
qed

lemma download_all_append:
  "fst (download_all env (xs @ ys) base_url save_dir w)
     = fst (download_all env xs base_url save_dir w)
       @ fst (download_all env ys base_url save_dir (snd (download_all env xs base_url save_dir w)))
   \<and> snd (download_all env (xs @ ys) base_url save_dir w)
     = snd (download_all env ys base_url save_dir (snd (download_all env xs base_url save_dir w)))"
  by (induction xs arbitrary: w) (simp_all add: Let_def)

lemma length_download_all:
  "length (fst (download_all env urls base_url save_dir w)) = length urls"
  by (induction urls arbitrary: w) (simp_all add: Let_def)

lemma store_cases:
  "store env url save_dir w = (out, w') \<Longrightarrow>
     (files w' = files w \<and> (\<forall>p. out \<noteq> Saved p))
   \<or> (\<exists>p body. (out = Saved p \<or> (\<exists>e. out = Failed e))
        \<and> target_path env url save_dir = Inr p \<and> files w p = None
        \<and> files w' = (files w)(p \<mapsto> body))"
  by (auto simp: store_def split: sum.splits dest!: retrieve_cases)

lemma probe_and_store_cases:
  "probe_and_store env url save_dir w = (out, w') \<Longrightarrow>
     (files w' = files w \<and> (\<forall>p. out \<noteq> Saved p))
   \<or> (\<exists>p body. (out = Saved p \<or> (\<exists>e. out = Failed e))
        \<and> target_path env url save_dir = Inr p \<and> files w p = None
        \<and> files w' = (files w)(p \<mapsto> body))"
  by (auto simp: probe_and_store_def Let_def split: sum.splits if_splits dest!: store_cases)

lemma download_image_outcome_cases:
  "download_image_outcome env url base_url save_dir w = (out, w') \<Longrightarrow>
     (files w' = files w \<and> (\<forall>p. out \<noteq> Saved p))
   \<or> (\<exists>url' p body. (out = Saved p \<or> (\<exists>e. out = Failed e))
        \<and> resolve_url env url base_url = Inr url'
        \<and> target_path env url' save_dir = Inr p \<and> files w p = None
        \<and> files w' = (files w)(p \<mapsto> body))"
  by (auto simp: download_image_outcome_def split: sum.splits if_splits
      dest!: probe_and_store_cases)

lemma lower_char_svg:
  "lower_char (CHR ''s'') = CHR ''s'' \<and> lower_char (CHR ''S'') = CHR ''s''
   \<and> lower_char (CHR ''v'') = CHR ''v'' \<and> lower_char (CHR ''V'') = CHR ''v''
   \<and> lower_char (CHR ''g'') = CHR ''g'' \<and> lower_char (CHR ''G'') = CHR ''g''"
  by code_simp

lemma lower_svg_variant:
  assumes "c1 \<in> {CHR ''s'', CHR ''S''}" and "c2 \<in> {CHR ''v'', CHR ''V''}"
    and "c3 \<in> {CHR ''g'', CHR ''G''}"
  shows "lower [c1, c2, c3] = ''svg''"
  using assms lower_char_svg by (auto simp: lower_def)

lemma contains_lower:
  assumes "contains s sub"
  shows "contains (lower s) (lower sub)"
proof -
  obtain p q where "s = p @ sub @ q"
    using assms unfolding contains_sublist sublist_def by blast
  then have "lower s = lower p @ lower sub @ lower q"
    by (simp add: lower_def)
  then show ?thesis
    unfolding contains_sublist sublist_def by blast
qed

lemma contains_of_path_suffix:
  assumes "url = pre @ path @ post" and "endswith path (c0 # sub)"
  shows "contains url sub"
proof -
  obtain zs where "path = zs @ c0 # sub"
    using assms(2) unfolding endswith_def suffix_def by blast
  then have "url = (pre @ zs @ [c0]) @ sub @ post"
    using assms(1) by simp
  then show ?thesis
    unfolding contains_sublist sublist_def by blast
qed

lemma is_svg_image_any_case:
  assumes "c1 \<in> {CHR ''s'', CHR ''S''}" and "c2 \<in> {CHR ''v'', CHR ''V''}"
    and "c3 \<in> {CHR ''g'', CHR ''G''}"
    and "contains url [c1, c2, c3] \<or> (\<exists>ct. content_type = Some ct \<and> contains ct [c1, c2, c3])"
  shows "is_svg_image url content_type"
proof -
  note l = lower_svg_variant [OF assms(1-3)]
  from assms(4) show ?thesis
  proof
    assume "contains url [c1, c2, c3]"
    then have "contains (lower url) ''svg''"
      using contains_lower l by metis
    then show ?thesis by (rule is_svg_image_substring)
  next
    assume "\<exists>ct. content_type = Some ct \<and> contains ct [c1, c2, c3]"
    then obtain ct where ct: "content_type = Some ct" "contains ct [c1, c2, c3]"
      by blast
    then have "contains (lower ct) ''svg''"
      using contains_lower l by metis
    moreover have "ct \<noteq> []"
      using ct(2) by auto
    ultimately show ?thesis
      using ct(1) by (simp add: is_svg_image_def)
  qed
qed

text \<open>
  Claim C3, as the code has it. A URL that starts with \<open>data:\<close>, in lower case as lines 195
  and 199 test it, is not resolved and is skipped as a data URI before \<open>is_svg_image\<close> is
  consulted, with the disk and the network log left as they were, also when it contains
  \<open>svg\<close>. \<open>is_svg_image\<close> holds of every URL of which a part (its path) ends in \<open>.svg\<close>, of
  every URL that contains \<open>svg\<close>, and whenever the content type supplied contains \<open>svg\<close>,
  in each case in any mix of upper and lower case. A URL that does not start with
  \<open>data:\<close> once resolved and of which \<open>is_svg_image\<close> holds is skipped as a vector image
  with no network call; one of which it holds only with the content type of the header
  probe is skipped as a vector image after the probe.
\<close>

theorem classification_precedence:
  "(startswith url ''data:'' \<longrightarrow>
      resolve_url env url base_url = Inr url
      \<and> download_image_outcome env url base_url save_dir w = (SkippedDataURI, w))
   \<and> (c1 \<in> {CHR ''s'', CHR ''S''} \<and> c2 \<in> {CHR ''v'', CHR ''V''} \<and> c3 \<in> {CHR ''g'', CHR ''G''}
        \<and> ((\<exists>pre path post. url = pre @ path @ post \<and> endswith path [CHR ''.'', c1, c2, c3])
            \<or> contains url [c1, c2, c3]
            \<or> (\<exists>ct. content_type = Some ct \<and> contains ct [c1, c2, c3]))
      \<longrightarrow> is_svg_image url content_type)
   \<and> (resolve_url env url base_url = Inr url' \<and> \<not> startswith url' ''data:''
        \<and> is_svg_image url' None
      \<longrightarrow> download_image_outcome env url base_url save_dir w = (SkippedVector, w))
   \<and> (resolve_url env url base_url = Inr url' \<and> \<not> startswith url' ''data:''
        \<and> \<not> is_svg_image url' None \<and> http_head env url' = Inr probed
        \<and> is_svg_image url' (Some probed)
      \<longrightarrow> download_image_outcome env url base_url save_dir w
            = (SkippedVector, w\<lparr>net_log := net_log w @ [Head url']\<rparr>))"
proof (intro conjI impI)
  assume d: "startswith url ''data:''"
  show "resolve_url env url base_url = Inr url"
    using d by (rule data_not_resolved)
  then show "download_image_outcome env url base_url save_dir w = (SkippedDataURI, w)"
    using d by (simp add: download_image_outcome_def)
next
  assume a: "c1 \<in> {CHR ''s'', CHR ''S''} \<and> c2 \<in> {CHR ''v'', CHR ''V''} \<and> c3 \<in> {CHR ''g'', CHR ''G''}
        \<and> ((\<exists>pre path post. url = pre @ path @ post \<and> endswith path [CHR ''.'', c1, c2, c3])
            \<or> contains url [c1, c2, c3]
            \<or> (\<exists>ct. content_type = Some ct \<and> contains ct [c1, c2, c3]))"
  then have "contains url [c1, c2, c3] \<or> (\<exists>ct. content_type = Some ct \<and> contains ct [c1, c2, c3])"
    using contains_of_path_suffix by blast
  with a show "is_svg_image url content_type"
    using is_svg_image_any_case by blast
next
  assume "resolve_url env url base_url = Inr url' \<and> \<not> startswith url' ''data:''
        \<and> is_svg_image url' None"
  then show "download_image_outcome env url base_url save_dir w = (SkippedVector, w)"
    by (simp add: download_image_outcome_def)
next
  assume "resolve_url env url base_url = Inr url' \<and> \<not> startswith url' ''data:''
        \<and> \<not> is_svg_image url' None \<and> http_head env url' = Inr probed
        \<and> is_svg_image url' (Some probed)"
  then show "download_image_outcome env url base_url save_dir w
            = (SkippedVector, w\<lparr>net_log := net_log w @ [Head url']\<rparr>)"
    by (simp add: download_image_outcome_def probe_and_store_def Let_def)
qed

lemma svg_example_classified: "is_svg_image ''https://x.com/a.svg?x=1'' None"
  by code_simp

theorem classification_precedence_witness:
  "download_image_outcome sample_env ''data:image/svg+xml,<svg/>'' ''https://ex.com/'' ''images''
          empty_world = (SkippedDataURI, empty_world)
   \<and> is_svg_image ''https://x.com/LOGO.SVG'' None
   \<and> is_svg_image ''https://x.com/a.png'' (Some ''Image/SVG+xml'')
   \<and> download_image_outcome sample_env ''https://x.com/a.svg?x=1'' ''https://ex.com/'' ''images''
          empty_world = (SkippedVector, empty_world)"
proof -
  have d: "startswith ''data:image/svg+xml,<svg/>'' ''data:''"
    by (simp add: startswith_def)
  have h: "resolve_url sample_env ''https://x.com/a.svg?x=1'' ''https://ex.com/''
      = Inr ''https://x.com/a.svg?x=1''"
    by code_simp
  have n: "\<not> startswith ''https://x.com/a.svg?x=1'' ''data:''"
    by code_simp
  have u: "contains ''https://x.com/LOGO.SVG'' ''SVG''"
    by code_simp
  have t: "contains ''Image/SVG+xml'' ''SVG''"
    by code_simp
  from classification_precedence [of "''data:image/svg+xml,<svg/>''" sample_env "''https://ex.com/''"
      "''images''" empty_world]
  have 1: "download_image_outcome sample_env ''data:image/svg+xml,<svg/>'' ''https://ex.com/''
          ''images'' empty_world = (SkippedDataURI, empty_world)"
    using d by blast
  from classification_precedence [of "''https://x.com/LOGO.SVG''" sample_env "''https://ex.com/''"
      "''images''" empty_world "CHR ''S''" "CHR ''V''" "CHR ''G''" None]
  have 2: "is_svg_image ''https://x.com/LOGO.SVG'' None"
    using u by simp
  from classification_precedence [of "''https://x.com/a.png''" sample_env "''https://ex.com/''"
      "''images''" empty_world "CHR ''S''" "CHR ''V''" "CHR ''G''" "Some ''Image/SVG+xml''"]
  have 3: "is_svg_image ''https://x.com/a.png'' (Some ''Image/SVG+xml'')"
    using t by simp
  from classification_precedence [of "''https://x.com/a.svg?x=1''" sample_env
      "''https://ex.com/''" "''images''" empty_world _ _ _ None "''https://x.com/a.svg?x=1''"]
  have 4: "download_image_outcome sample_env ''https://x.com/a.svg?x=1'' ''https://ex.com/''
          ''images'' empty_world = (SkippedVector, empty_world)"
    using h n svg_example_classified by blast
  from 1 2 3 4 show ?thesis by simp
qed

text \<open>
  The claim as stated fails for a data URI whose scheme is written in upper case:
  \<open>urljoin\<close> returns it as it is, line 199 does not recognise it, and line 203 classifies
  it as a vector image.
\<close>

theorem upper_case_data_counterexample:
  "resolve_url sample_env ''DATA:image/svg+xml,<svg/>'' ''https://ex.com/''
     = Inr ''DATA:image/svg+xml,<svg/>''
   \<and> fst (download_image_outcome sample_env ''DATA:image/svg+xml,<svg/>'' ''https://ex.com/''
          ''images'' empty_world) = SkippedVector"
  by code_simp

lemma on_disk_probe_only:
  assumes "resolve_url env url base_url = Inr url'"
    and "\<not> startswith url' ''data:''"
    and "\<not> is_svg_image url' None"
    and "target_path env url' save_dir = Inr filepath"
    and "files w filepath \<noteq> None"
  shows "download_image_outcome env url base_url save_dir w =
           ((case http_head env url' of
               Inr content_type \<Rightarrow>
                 if is_svg_image url' (Some content_type) then SkippedVector
                 else SkippedDuplicateOnDisk
             | Inl e \<Rightarrow> SkippedDuplicateOnDisk),
            w\<lparr>net_log := net_log w @ [Head url']\<rparr>)
         \<and> fst (download_image env url base_url save_dir w) = None"
proof -
  let ?w1 = "w\<lparr>net_log := net_log w @ [Head url']\<rparr>"
  have "files ?w1 filepath \<noteq> None"
    using assms(5) by simp
  then have "store env url' save_dir ?w1 = (SkippedDuplicateOnDisk, ?w1)"
    using assms(4) retrieve_present [of ?w1 filepath env url'] by (simp add: store_def)
  then have "probe_and_store env url' save_dir w =
           ((case http_head env url' of
               Inr content_type \<Rightarrow>
                 if is_svg_image url' (Some content_type) then SkippedVector
                 else SkippedDuplicateOnDisk
             | Inl e \<Rightarrow> SkippedDuplicateOnDisk), ?w1)"
    by (simp add: probe_and_store_def Let_def split: sum.splits)
  then have out: "download_image_outcome env url base_url save_dir w =
           ((case http_head env url' of
               Inr content_type \<Rightarrow>
                 if is_svg_image url' (Some content_type) then SkippedVector
                 else SkippedDuplicateOnDisk
             | Inl e \<Rightarrow> SkippedDuplicateOnDisk), ?w1)"
    using assms(1-3) by (simp add: download_image_outcome_def)
  then have "fst (download_image env url base_url save_dir w) = None"
    by (simp add: download_image_def split: sum.splits)
  with out show ?thesis by simp
qed

text \<open>
  Claim C1, as the code has it. The header probe of line 209 comes before the existence
  check of line 227. For a URL that passes the checks of lines 199 and 203 and whose
  file is on disk, the call makes the header probe and no other network call, leaves the
  disk as it was and returns \<open>None\<close>: by falling through the \<open>if\<close> of line 227 (the
  duplicate skip), unless the probe answers with a content type that contains \<open>svg\<close>,
  in which case line 213 returns first.
\<close>

theorem duplicate_on_disk_skips_retrieval:
  assumes "resolve_url env url base_url = Inr url'"
    and "\<not> startswith url' ''data:''"
    and "\<not> is_svg_image url' None"
    and "target_path env url' save_dir = Inr filepath"
    and "files w filepath \<noteq> None"
  shows "download_image_outcome env url base_url save_dir w =
           ((case http_head env url' of
               Inr content_type \<Rightarrow>
                 if is_svg_image url' (Some content_type) then SkippedVector
                 else SkippedDuplicateOnDisk
             | Inl e \<Rightarrow> SkippedDuplicateOnDisk),
            w\<lparr>net_log := net_log w @ [Head url']\<rparr>)
         \<and> fst (download_image env url base_url save_dir w) = None"
  using assms by (rule on_disk_probe_only)

lemma a_png_target:
  "target_path sample_env ''https://ex.com/a.png'' ''images''
     = Inr ''images/c98b0c87944d062e1bacda2032deb838.png''"
  by code_simp

theorem duplicate_on_disk_skips_retrieval_witness:
  "download_image_outcome sample_env ''https://ex.com/a.png'' ''https://ex.com/'' ''images''
       a_png_on_disk
     = (SkippedDuplicateOnDisk, a_png_on_disk\<lparr>net_log := [Head ''https://ex.com/a.png'']\<rparr>)"
proof -
  have 1: "resolve_url sample_env ''https://ex.com/a.png'' ''https://ex.com/''
      = Inr ''https://ex.com/a.png''"
    by code_simp
  have 2: "\<not> startswith ''https://ex.com/a.png'' ''data:''"
    by code_simp
  have 3: "\<not> is_svg_image ''https://ex.com/a.png'' None"
    by code_simp
  have 5: "files a_png_on_disk ''images/c98b0c87944d062e1bacda2032deb838.png'' \<noteq> None"
    by (simp add: a_png_on_disk_def)
  have 6: "http_head sample_env ''https://ex.com/a.png'' = Inr ''image/png''"
    by code_simp
  have 7: "\<not> is_svg_image ''https://ex.com/a.png'' (Some ''image/png'')"
    by code_simp
  have 8: "net_log a_png_on_disk = []"
    by (simp add: a_png_on_disk_def)
  show ?thesis
    using duplicate_on_disk_skips_retrieval [OF 1 2 3 a_png_target 5] 6 7 8 by simp
qed

text \<open>
  The claim as stated fails: the file of \<open>https://ex.com/a.png\<close> is on disk, and the call
  still sends the header probe.
\<close>

theorem duplicate_on_disk_probe_counterexample:
  "target_path sample_env ''https://ex.com/a.png'' ''images''
     = Inr ''images/c98b0c87944d062e1bacda2032deb838.png''
   \<and> files a_png_on_disk ''images/c98b0c87944d062e1bacda2032deb838.png'' = Some ''PNG-A''
   \<and> net_log a_png_on_disk = []
   \<and> net_log (snd (download_image_outcome sample_env ''https://ex.com/a.png'' ''https://ex.com/''
        ''images'' a_png_on_disk)) = [Head ''https://ex.com/a.png'']"
proof (intro conjI)
  show "target_path sample_env ''https://ex.com/a.png'' ''images''
     = Inr ''images/c98b0c87944d062e1bacda2032deb838.png''"
    by (rule a_png_target)
  show "files a_png_on_disk ''images/c98b0c87944d062e1bacda2032deb838.png'' = Some ''PNG-A''"
    by (simp add: a_png_on_disk_def)
  show "net_log a_png_on_disk = []"
    by (simp add: a_png_on_disk_def)
  show "net_log (snd (download_image_outcome sample_env ''https://ex.com/a.png'' ''https://ex.com/''
        ''images'' a_png_on_disk)) = [Head ''https://ex.com/a.png'']"
    by code_simp
qed

text \<open>
  Claim C7, as the code has it. The result of lines 195 and 196 depends on the reference,
  the base and \<open>urljoin\<close> alone; a reference that starts with \<open>http://\<close> or \<open>https://\<close> is
  returned unchanged; and resolving a result again returns it unchanged when it starts
  with \<open>http://\<close>, \<open>https://\<close> or \<open>data:\<close>, or when \<open>urljoin\<close> maps it to itself.
\<close>

theorem resolve_url_idempotent_on_absolute:
  "(urljoin env' = urljoin env \<longrightarrow> resolve_url env' url base_url = resolve_url env url base_url)
   \<and> (startswith url ''http://'' \<or> startswith url ''https://''
        \<longrightarrow> resolve_url env url base_url = Inr url)
   \<and> (resolve_url env url base_url = Inr url'
        \<and> (startswith url' ''http://'' \<or> startswith url' ''https://'' \<or> startswith url' ''data:''
            \<or> urljoin env base_url url' = Inr url')
      \<longrightarrow> resolve_url env url' base_url = Inr url')"
  by (auto simp: resolve_url_def)

theorem resolve_url_idempotent_on_absolute_witness:
  "resolve_url sample_env ''/a.png'' ''https://ex.com/'' = Inr ''https://ex.com/a.png''
   \<and> resolve_url sample_env ''https://ex.com/a.png'' ''https://ex.com/'' = Inr ''https://ex.com/a.png''"
proof -
  have 1: "resolve_url sample_env ''/a.png'' ''https://ex.com/'' = Inr ''https://ex.com/a.png''"
    by code_simp
  have 2: "startswith ''https://ex.com/a.png'' ''https://''"
    by code_simp
  from resolve_url_idempotent_on_absolute [of sample_env sample_env "''/a.png''" "''https://ex.com/''"
      "''https://ex.com/a.png''"] 1 2
  have "resolve_url sample_env ''https://ex.com/a.png'' ''https://ex.com/'' = Inr ''https://ex.com/a.png''"
    by blast
  with 1 show ?thesis by simp
qed

text \<open>
  The claim as stated fails for a base written with an upper-case scheme and the empty
  reference (which an empty \<open>data-src\<close> yields): \<open>urljoin\<close> returns the base, which does not
  start with \<open>https://\<close>, and joined once more its scheme is lowered. It fails as well for
  a base that is itself relative.
\<close>

theorem resolve_url_not_idempotent_counterexample:
  "resolve_url sample_env [] ''HTTPS://EX.com/'' = Inr ''HTTPS://EX.com/''
   \<and> resolve_url sample_env ''HTTPS://EX.com/'' ''HTTPS://EX.com/'' = Inr ''https://EX.com/''
   \<and> resolve_url sample_env ''HTTPS://EX.com/'' ''HTTPS://EX.com/''
       \<noteq> resolve_url sample_env [] ''HTTPS://EX.com/''"
  by code_simp

lemma resolve_url_relative_base:
  "resolve_url sample_env ''c'' ''a/b/'' = Inr ''a/b/c''
   \<and> resolve_url sample_env ''a/b/c'' ''a/b/'' = Inr ''a/b/a/b/c''"
  by code_simp

subsection \<open>Runs that share a destination directory\<close>

lemma resolve_url_cong:
  assumes "urljoin env' = urljoin env"
  shows "resolve_url env' url base_url = resolve_url env url base_url"
  unfolding resolve_url_def assms by (rule refl)

lemma target_path_cong:
  assumes "md5_hex env' = md5_hex env" and "path_ext env' = path_ext env"
  shows "target_path env' url save_dir = target_path env url save_dir"
  unfolding target_path_def assms by (rule refl)

lemma on_disk_cong:
  assumes "urljoin env' = urljoin env" and "md5_hex env' = md5_hex env"
    and "path_ext env' = path_ext env"
  shows "on_disk env' base_url save_dir w url = on_disk env base_url save_dir w url"
  unfolding on_disk_def resolve_url_cong [OF assms(1)] target_path_cong [OF assms(2,3)]
  by (rule refl)

lemma on_disk_files_only:
  assumes "files w = files v"
  shows "on_disk env base_url save_dir w url = on_disk env base_url save_dir v url"
  unfolding on_disk_def assms by (rule refl)

lemma on_disk_iff:
  "on_disk env base_url save_dir w url \<longleftrightarrow>
     (\<exists>url' p. resolve_url env url base_url = Inr url' \<and> target_path env url' save_dir = Inr p
        \<and> files w p \<noteq> None)"
  by (auto simp: on_disk_def split: sum.splits)

lemma saved_requirements:
  assumes "download_image_outcome env url base_url save_dir w = (Saved p, w')"
  shows "\<exists>url'. resolve_url env url base_url = Inr url' \<and> \<not> startswith url' ''data:''
           \<and> \<not> is_svg_image url' None \<and> target_path env url' save_dir = Inr p
           \<and> files w p = None \<and> files w' p \<noteq> None"
proof -
  obtain url' where r: "resolve_url env url base_url = Inr url'"
    using assms by (cases "resolve_url env url base_url") (auto simp: download_image_outcome_def)
  have d: "\<not> startswith url' ''data:''" and v: "\<not> is_svg_image url' None"
    using assms r by (auto simp: download_image_outcome_def split: if_splits)
  then have "probe_and_store env url' save_dir w = (Saved p, w')"
    using assms r by (simp add: download_image_outcome_def)
  then have "target_path env url' save_dir = Inr p \<and> files w p = None \<and> files w' p \<noteq> None"
    by (auto dest!: probe_and_store_cases)
  with r d v show ?thesis by blast
qed

lemma files_mono:
  assumes "files w p \<noteq> None"
  shows "files (snd (download_image_outcome env url base_url save_dir w)) p \<noteq> None"
proof -
  obtain out w' where e: "download_image_outcome env url base_url save_dir w = (out, w')"
    by (cases "download_image_outcome env url base_url save_dir w")
  from download_image_outcome_cases [OF e] assms have "files w' p \<noteq> None"
    by auto
  with e show ?thesis by simp
qed

lemma files_mono_all:
  "files w p \<noteq> None \<Longrightarrow> files (snd (download_all env urls base_url save_dir w)) p \<noteq> None"
proof (induction urls arbitrary: w)
  case Nil
  then show ?case by simp
next
  case (Cons u us)
  have "files (snd (download_image_outcome env u base_url save_dir w)) p \<noteq> None"
    using Cons.prems by (rule files_mono)
  then have "files (snd (download_all env us base_url save_dir
      (snd (download_image_outcome env u base_url save_dir w)))) p \<noteq> None"
    by (rule Cons.IH)
  moreover have "snd (download_all env (u # us) base_url save_dir w)
      = snd (download_all env us base_url save_dir
          (snd (download_image_outcome env u base_url save_dir w)))"
    by (simp add: Let_def)
  ultimately show ?case
    by simp
qed

lemma on_disk_mono:
  assumes "on_disk env base_url save_dir w url"
  shows "on_disk env base_url save_dir (snd (download_image_outcome env0 u base_url save_dir w)) url"
proof -
  obtain url' p where "resolve_url env url base_url = Inr url'"
    "target_path env url' save_dir = Inr p" "files w p \<noteq> None"
    using assms unfolding on_disk_iff by blast
  moreover from this(3)
  have "files (snd (download_image_outcome env0 u base_url save_dir w)) p \<noteq> None"
    by (rule files_mono)
  ultimately show ?thesis
    unfolding on_disk_iff by blast
qed

lemma on_disk_mono_all:
  assumes "on_disk env base_url save_dir w url"
  shows "on_disk env base_url save_dir (snd (download_all env0 urls base_url save_dir w)) url"
proof -
  obtain url' p where "resolve_url env url base_url = Inr url'"
    "target_path env url' save_dir = Inr p" "files w p \<noteq> None"
    using assms unfolding on_disk_iff by blast
  moreover from this(3)
  have "files (snd (download_all env0 urls base_url save_dir w)) p \<noteq> None"
    by (rule files_mono_all)
  ultimately show ?thesis
    unfolding on_disk_iff by blast
qed

lemma saved_on_disk:
  assumes "fst (download_image_outcome env url base_url save_dir w) = Saved p"
  shows "on_disk env base_url save_dir (snd (download_image_outcome env url base_url save_dir w)) url"
proof -
  have "download_image_outcome env url base_url save_dir w
      = (Saved p, snd (download_image_outcome env url base_url save_dir w))"
    using assms by (simp add: prod_eq_iff)
  from saved_requirements [OF this] show ?thesis
    unfolding on_disk_iff by blast
qed

lemma on_disk_not_saved:
  assumes "on_disk env base_url save_dir w url"
    and "urljoin env' = urljoin env" and "md5_hex env' = md5_hex env"
    and "path_ext env' = path_ext env"
  shows "(\<forall>p. fst (download_image_outcome env' url base_url save_dir w) \<noteq> Saved p)
       \<and> files (snd (download_image_outcome env' url base_url save_dir w)) = files w"
proof -
  obtain out w' where e: "download_image_outcome env' url base_url save_dir w = (out, w')"
    by (cases "download_image_outcome env' url base_url save_dir w")
  obtain url0 p0 where on: "resolve_url env url base_url = Inr url0"
    "target_path env url0 save_dir = Inr p0" "files w p0 \<noteq> None"
    using assms(1) unfolding on_disk_iff by blast
  have r: "resolve_url env' url base_url = resolve_url env url base_url"
    using assms(2) by (rule resolve_url_cong)
  have t: "target_path env' url0 save_dir = target_path env url0 save_dir"
    using assms(3,4) by (rule target_path_cong)
  have "\<not> (\<exists>url' p. resolve_url env' url base_url = Inr url'
            \<and> target_path env' url' save_dir = Inr p \<and> files w p = None)"
  proof
    assume "\<exists>url' p. resolve_url env' url base_url = Inr url'
            \<and> target_path env' url' save_dir = Inr p \<and> files w p = None"
    then obtain url' p where "resolve_url env' url base_url = Inr url'"
      "target_path env' url' save_dir = Inr p" "files w p = None"
      by blast
    with on r t show False by simp
  qed
  with download_image_outcome_cases [OF e] have "files w' = files w \<and> (\<forall>p. out \<noteq> Saved p)"
    by blast
  with e show ?thesis by simp
qed

lemma truthy_saved: "truthy (return_value out) \<Longrightarrow> \<exists>p. out = Saved p"
  by (cases out) (simp_all add: truthy_def)

lemma not_saved_none: "\<forall>p. out \<noteq> Saved p \<Longrightarrow> return_value out = None"
  by (cases out) simp_all

lemma all_successful:
  assumes "successful_downloads outs = length outs"
  shows "\<forall>out \<in> set outs. \<exists>p. out = Saved p"
proof
  fix out assume "out \<in> set outs"
  show "\<exists>p. out = Saved p"
  proof (rule ccontr)
    assume "\<not> (\<exists>p. out = Saved p)"
    then have "\<not> truthy (return_value out)"
      using truthy_saved by blast
    with \<open>out \<in> set outs\<close> have "length (filter (\<lambda>r. truthy (return_value r)) outs) < length outs"
      by (rule length_filter_less)
    with assms show False by (simp add: successful_downloads_def)
  qed
qed

lemma first_run_leaves_files:
  "\<forall>out \<in> set (fst (download_all env urls base_url save_dir w)). \<exists>p. out = Saved p \<Longrightarrow>
   \<forall>u \<in> set urls. on_disk env base_url save_dir (snd (download_all env urls base_url save_dir w)) u"
proof (induction urls arbitrary: w)
  case Nil
  then show ?case by simp
next
  case (Cons u us)
  let ?r = "download_image_outcome env u base_url save_dir w"
  from Cons.prems obtain p where p: "fst ?r = Saved p"
    by (auto simp: Let_def)
  have rest: "\<forall>out \<in> set (fst (download_all env us base_url save_dir (snd ?r))). \<exists>p. out = Saved p"
    using Cons.prems by (simp add: Let_def)
  have "on_disk env base_url save_dir (snd ?r) u"
    using p by (rule saved_on_disk)
  then have "on_disk env base_url save_dir (snd (download_all env us base_url save_dir (snd ?r))) u"
    by (rule on_disk_mono_all)
  with Cons.IH [OF rest] show ?case
    by (simp add: Let_def)
qed

lemma second_run_saves_nothing:
  assumes "urljoin env' = urljoin env" and "md5_hex env' = md5_hex env"
    and "path_ext env' = path_ext env"
  shows "\<forall>u \<in> set urls. on_disk env base_url save_dir w u \<Longrightarrow>
   (\<forall>out \<in> set (fst (download_all env' urls base_url save_dir w)). \<forall>p. out \<noteq> Saved p)
   \<and> files (snd (download_all env' urls base_url save_dir w)) = files w"
proof (induction urls arbitrary: w)
  case Nil
  then show ?case by simp
next
  case (Cons u us)
  let ?r = "download_image_outcome env' u base_url save_dir w"
  have "on_disk env base_url save_dir w u"
    using Cons.prems by simp
  then have u: "(\<forall>p. fst ?r \<noteq> Saved p) \<and> files (snd ?r) = files w"
    using assms by (rule on_disk_not_saved)
  then have "files (snd ?r) = files w"
    by blast
  then have "\<And>v. on_disk env base_url save_dir (snd ?r) v = on_disk env base_url save_dir w v"
    by (rule on_disk_files_only)
  then have "\<forall>v \<in> set us. on_disk env base_url save_dir (snd ?r) v"
    using Cons.prems by simp
  from Cons.IH [OF this] u show ?case
    by (simp add: Let_def)
qed

lemma none_successful:
  assumes "\<forall>out \<in> set outs. \<forall>p. out \<noteq> Saved p"
  shows "successful_downloads outs = 0"
proof -
  have "\<forall>out \<in> set outs. \<not> truthy (return_value out)"
    using assms truthy_saved by blast
  then have "filter (\<lambda>r. truthy (return_value r)) outs = []"
    by (simp add: filter_empty_conv)
  then show ?thesis by (simp add: successful_downloads_def)
qed

text \<open>
  Claim C9. When the file of a URL is on disk the call returns \<open>None\<close>, the value it
  returns for data URIs, vector images and failures, so the counter of line 269 does
  not count it: after a run in which every URL of the batch was downloaded, a second run
  over the same URLs (whatever the network then answers) returns \<open>None\<close> for each of
  them, counts zero successful downloads and leaves every file in place.
\<close>

theorem second_run_reports_zero:
  assumes "urljoin env' = urljoin env" and "md5_hex env' = md5_hex env"
    and "path_ext env' = path_ext env"
    and "successful_downloads (fst (download_all env urls base_url save_dir w)) = length urls"
  shows "successful_downloads
           (fst (download_all env' urls base_url save_dir
                  (snd (download_all env urls base_url save_dir w)))) = 0
    \<and> files (snd (download_all env' urls base_url save_dir
                    (snd (download_all env urls base_url save_dir w))))
        = files (snd (download_all env urls base_url save_dir w))
    \<and> (\<forall>u \<in> set urls.
          on_disk env base_url save_dir (snd (download_all env urls base_url save_dir w)) u
          \<and> fst (download_image env' u base_url save_dir
                   (snd (download_all env urls base_url save_dir w))) = None)"
proof -
  let ?w1 = "snd (download_all env urls base_url save_dir w)"
  have "successful_downloads (fst (download_all env urls base_url save_dir w))
      = length (fst (download_all env urls base_url save_dir w))"
    using assms(4) by (simp add: length_download_all)
  then have "\<forall>out \<in> set (fst (download_all env urls base_url save_dir w)). \<exists>p. out = Saved p"
    by (rule all_successful)
  then have disk: "\<forall>u \<in> set urls. on_disk env base_url save_dir ?w1 u"
    by (rule first_run_leaves_files)
  have second: "(\<forall>out \<in> set (fst (download_all env' urls base_url save_dir ?w1)). \<forall>p. out \<noteq> Saved p)
      \<and> files (snd (download_all env' urls base_url save_dir ?w1)) = files ?w1"
    using assms(1-3) disk by (rule second_run_saves_nothing)
  then have zero: "successful_downloads (fst (download_all env' urls base_url save_dir ?w1)) = 0"
    using none_successful by blast
  have each: "\<forall>u \<in> set urls. fst (download_image env' u base_url save_dir ?w1) = None"
  proof
    fix u assume "u \<in> set urls"
    then have "on_disk env base_url save_dir ?w1 u"
      using disk by blast
    then have "\<forall>p. fst (download_image_outcome env' u base_url save_dir ?w1) \<noteq> Saved p"
      using on_disk_not_saved [OF _ assms(1-3)] by blast
    then show "fst (download_image env' u base_url save_dir ?w1) = None"
      by (simp add: download_image_def not_saved_none)
  qed
  from zero second disk each show ?thesis
    by blast
qed

lemma two_pngs_first_run:
  "successful_downloads
     (fst (download_all sample_env [''https://ex.com/a.png'', ''https://ex.com/b.png'']
            ''https://ex.com/'' ''images'' empty_world)) = 2"
  by code_simp

theorem second_run_reports_zero_witness:
  "successful_downloads
     (fst (download_all sample_env [''https://ex.com/a.png'', ''https://ex.com/b.png'']
            ''https://ex.com/'' ''images''
            (snd (download_all sample_env [''https://ex.com/a.png'', ''https://ex.com/b.png'']
                   ''https://ex.com/'' ''images'' empty_world)))) = 0"
proof -
  have "successful_downloads
     (fst (download_all sample_env [''https://ex.com/a.png'', ''https://ex.com/b.png'']
            ''https://ex.com/'' ''images'' empty_world))
      = length [''https://ex.com/a.png'', ''https://ex.com/b.png'']"
    using two_pngs_first_run by simp
  from second_run_reports_zero [OF refl refl refl this] show ?thesis
    by blast
qed

lemma retrieval_raises_failed:
  assumes "net_log (snd (download_image_outcome env u base_url save_dir w))
             = net_log w @ [Head url', Get url']"
    and "http_get env url' = Inl e
         \<or> (\<exists>response. http_get env url' = Inr response \<and> raise_for_status response = Inl e)"
  shows "fst (download_image_outcome env u base_url save_dir w) = Failed e
       \<and> files (snd (download_image_outcome env u base_url save_dir w)) = files w"
  using assms
  unfolding download_image_outcome_def probe_and_store_def store_def retrieve_def Let_def
  by (auto split: sum.splits if_splits option.splits)

lemma svg_final_check_rerun:
  assumes "fst (download_image_outcome env url base_url save_dir w) = SkippedVector"
    and "net_log (snd (download_image_outcome env url base_url save_dir w))
           = net_log w @ [Head url', Get url']"
    and "files v = files w"
  shows "download_image_outcome env url base_url save_dir v
           = (SkippedVector, v\<lparr>net_log := net_log v @ [Head url', Get url']\<rparr>)"
  using assms
  unfolding download_image_outcome_def probe_and_store_def store_def retrieve_def Let_def
  by (auto split: sum.splits if_splits option.splits)


text \<open>
  Claim C5. When the call for one URL of a batch makes the full retrieval and the
  retrieval raises (\<open>requests.get\<close> raises, or \<open>raise_for_status\<close> does), the call ends in
  the \<open>except\<close> branch of line 242: its outcome is the failure and it writes no file. The
  batch still yields one outcome for each URL, and the outcomes of the URLs before and
  after it are those of the batch without that URL.
\<close>

theorem batch_isolation:
  assumes "net_log (snd (download_image_outcome env u base_url save_dir
                           (snd (download_all env xs base_url save_dir w))))
             = net_log (snd (download_all env xs base_url save_dir w)) @ [Head url', Get url']"
    and "http_get env url' = Inl e
         \<or> (\<exists>response. http_get env url' = Inr response \<and> raise_for_status response = Inl e)"
  shows "length (fst (download_all env (xs @ u # ys) base_url save_dir w)) = length (xs @ u # ys)
    \<and> fst (download_all env (xs @ u # ys) base_url save_dir w)
        = take (length xs) (fst (download_all env (xs @ ys) base_url save_dir w))
          @ Failed e
          # drop (length xs) (fst (download_all env (xs @ ys) base_url save_dir w))
    \<and> files (snd (download_all env (xs @ u # ys) base_url save_dir w))
        = files (snd (download_all env (xs @ ys) base_url save_dir w))"
proof -
  let ?w1 = "snd (download_all env xs base_url save_dir w)"
  let ?r = "download_image_outcome env u base_url save_dir ?w1"
  let ?o1 = "fst (download_all env xs base_url save_dir w)"
  have failed: "fst ?r = Failed e" and disk: "files (snd ?r) = files ?w1"
    using retrieval_raises_failed [OF assms] by simp_all
  have same: "fst (download_all env ys base_url save_dir (snd ?r))
      = fst (download_all env ys base_url save_dir ?w1)
    \<and> files (snd (download_all env ys base_url save_dir (snd ?r)))
      = files (snd (download_all env ys base_url save_dir ?w1))"
    using disk by (rule download_all_files_only)
  have with_u: "fst (download_all env (xs @ u # ys) base_url save_dir w)
      = ?o1 @ Failed e # fst (download_all env ys base_url save_dir ?w1)"
    using download_all_append [of env xs "u # ys" base_url save_dir w] failed same
    by (simp add: Let_def)
  have without: "fst (download_all env (xs @ ys) base_url save_dir w)
      = ?o1 @ fst (download_all env ys base_url save_dir ?w1)"
    using download_all_append [of env xs ys base_url save_dir w] by simp
  have len: "length ?o1 = length xs"
    by (rule length_download_all)
  have "files (snd (download_all env (xs @ u # ys) base_url save_dir w))
      = files (snd (download_all env ys base_url save_dir (snd ?r)))"
    using download_all_append [of env xs "u # ys" base_url save_dir w] by (simp add: Let_def)
  also have "\<dots> = files (snd (download_all env ys base_url save_dir ?w1))"
    using same by simp
  also have "\<dots> = files (snd (download_all env (xs @ ys) base_url save_dir w))"
    using download_all_append [of env xs ys base_url save_dir w] by simp
  finally have disk_all: "files (snd (download_all env (xs @ u # ys) base_url save_dir w))
      = files (snd (download_all env (xs @ ys) base_url save_dir w))" .
  show ?thesis
    using with_u without len disk_all by (simp add: length_download_all)
qed

lemma missing_png_retrieved:
  "net_log (snd (download_image_outcome sample_env ''https://ex.com/missing.png'' ''https://ex.com/''
          ''images''
          (snd (download_all sample_env [''https://ex.com/a.png''] ''https://ex.com/'' ''images''
                 empty_world))))
     = net_log (snd (download_all sample_env [''https://ex.com/a.png''] ''https://ex.com/''
                 ''images'' empty_world))
       @ [Head ''https://ex.com/missing.png'', Get ''https://ex.com/missing.png'']"
  by code_simp

lemma missing_png_raises:
  "http_get sample_env ''https://ex.com/missing.png''
     = Inr \<lparr>resp_status = 404, resp_content_type = ''text/html'', resp_content = ''Not Found''\<rparr>
   \<and> raise_for_status
       \<lparr>resp_status = 404, resp_content_type = ''text/html'', resp_content = ''Not Found''\<rparr>
     = Inl (Error ''HTTPError'')"
  by code_simp

lemma two_pngs_outcomes:
  "fst (download_all sample_env ([''https://ex.com/a.png''] @ [''https://ex.com/b.png''])
          ''https://ex.com/'' ''images'' empty_world)
     = [Saved ''images/c98b0c87944d062e1bacda2032deb838.png'',
        Saved ''images/8bc2eca855cfd47a8d4a8db68cb4be1b.png'']"
  by code_simp

theorem batch_isolation_witness:
  "fst (download_all sample_env
          [''https://ex.com/a.png'', ''https://ex.com/missing.png'', ''https://ex.com/b.png'']
          ''https://ex.com/'' ''images'' empty_world)
     = [Saved ''images/c98b0c87944d062e1bacda2032deb838.png'',
        Failed (Error ''HTTPError''),
        Saved ''images/8bc2eca855cfd47a8d4a8db68cb4be1b.png'']"
proof -
  have "http_get sample_env ''https://ex.com/missing.png'' = Inl (Error ''HTTPError'')
         \<or> (\<exists>response. http_get sample_env ''https://ex.com/missing.png'' = Inr response
               \<and> raise_for_status response = Inl (Error ''HTTPError''))"
    using missing_png_raises by blast
  from batch_isolation [OF missing_png_retrieved this, of "[''https://ex.com/b.png'']"]
  show ?thesis
    using two_pngs_outcomes by simp
qed

text \<open>
  Claim C4, as the code has it. Of two calls for the same URL, base URL and directory,
  the second made on the disk the first has left, at most one saves the file: when the
  first call saved it, the second finds it, sends the header probe only (no full
  retrieval), changes no file and ends as a duplicate skip (or as a vector skip, when the
  probe now reports an SVG content type). The file name depends on the URL alone, through
  \<open>urljoin\<close>, the hash and the extension, which are the same in both calls; the answers of
  the network may differ. When the first call made the full retrieval and dropped the body
  at the final check of line 233, it wrote no file, and a second call that gets the same
  answers makes the same probe and the same full retrieval again.
\<close>

theorem saved_at_most_once:
  assumes "urljoin env' = urljoin env" and "md5_hex env' = md5_hex env"
    and "path_ext env' = path_ext env"
  shows "(let r1 = download_image_outcome env url base_url save_dir w;
              r2 = download_image_outcome env' url base_url save_dir (snd r1)
          in (\<forall>p. fst r1 = Saved p \<longrightarrow>
                (fst r2 = SkippedDuplicateOnDisk \<or> fst r2 = SkippedVector)
                \<and> (\<exists>url'. net_log (snd r2) = net_log (snd r1) @ [Head url'])
                \<and> files (snd r2) = files (snd r1))
             \<and> \<not> ((\<exists>p. fst r1 = Saved p) \<and> (\<exists>q. fst r2 = Saved q)))
       \<and> (let r1 = download_image_outcome env url base_url save_dir w
          in \<forall>url'. fst r1 = SkippedVector
                \<and> net_log (snd r1) = net_log w @ [Head url', Get url']
              \<longrightarrow> files (snd r1) = files w
                  \<and> download_image_outcome env url base_url save_dir (snd r1)
                      = (SkippedVector,
                         (snd r1)\<lparr>net_log := net_log (snd r1) @ [Head url', Get url']\<rparr>))"
proof -
  let ?r1 = "download_image_outcome env url base_url save_dir w"
  let ?r2 = "download_image_outcome env' url base_url save_dir (snd ?r1)"
  have main: "(fst ?r2 = SkippedDuplicateOnDisk \<or> fst ?r2 = SkippedVector)
               \<and> (\<exists>url'. net_log (snd ?r2) = net_log (snd ?r1) @ [Head url'])
               \<and> files (snd ?r2) = files (snd ?r1)" if s: "fst ?r1 = Saved p" for p
  proof -
    have "?r1 = (Saved p, snd ?r1)"
      using s by (simp add: prod_eq_iff)
    from saved_requirements [OF this] obtain url' where
      r: "resolve_url env url base_url = Inr url'" and d: "\<not> startswith url' ''data:''"
      and v: "\<not> is_svg_image url' None" and t: "target_path env url' save_dir = Inr p"
      and f: "files (snd ?r1) p \<noteq> None"
      by blast
    have r': "resolve_url env' url base_url = Inr url'"
      using r resolve_url_cong [OF assms(1)] by simp
    have t': "target_path env' url' save_dir = Inr p"
      using t target_path_cong [OF assms(2,3)] by simp
    have "?r2 = ((case http_head env' url' of
               Inr content_type \<Rightarrow>
                 if is_svg_image url' (Some content_type) then SkippedVector
                 else SkippedDuplicateOnDisk
             | Inl e \<Rightarrow> SkippedDuplicateOnDisk),
            (snd ?r1)\<lparr>net_log := net_log (snd ?r1) @ [Head url']\<rparr>)"
      using on_disk_probe_only [OF r' d v t' f] by blast
    then show ?thesis
      by (auto split: sum.splits)
  qed
  have once: "\<not> ((\<exists>p. fst ?r1 = Saved p) \<and> (\<exists>q. fst ?r2 = Saved q))"
    using main by auto
  have again: "files (snd ?r1) = files w
      \<and> download_image_outcome env url base_url save_dir (snd ?r1)
          = (SkippedVector, (snd ?r1)\<lparr>net_log := net_log (snd ?r1) @ [Head url', Get url']\<rparr>)"
    if v: "fst ?r1 = SkippedVector" and l: "net_log (snd ?r1) = net_log w @ [Head url', Get url']"
    for url'
  proof -
    have "?r1 = (SkippedVector, w\<lparr>net_log := net_log w @ [Head url', Get url']\<rparr>)"
      using svg_final_check_rerun [OF v l refl] .
    then have disk: "files (snd ?r1) = files w"
      by simp
    from svg_final_check_rerun [OF v l disk] disk show ?thesis
      by simp
  qed
  show ?thesis
    unfolding Let_def using main once again by blast
qed

lemma a_png_saved_first:
  "fst (download_image_outcome sample_env ''https://ex.com/a.png'' ''https://ex.com/'' ''images''
          empty_world) = Saved ''images/c98b0c87944d062e1bacda2032deb838.png''"
  by code_simp

theorem saved_at_most_once_witness:
  "fst (download_image_outcome sample_env ''https://ex.com/a.png'' ''https://ex.com/'' ''images''
          empty_world) = Saved ''images/c98b0c87944d062e1bacda2032deb838.png''
   \<and> files (snd (download_image_outcome sample_env ''https://ex.com/a.png'' ''https://ex.com/''
        ''images''
        (snd (download_image_outcome sample_env ''https://ex.com/a.png'' ''https://ex.com/''
               ''images'' empty_world))))
     = files (snd (download_image_outcome sample_env ''https://ex.com/a.png'' ''https://ex.com/''
               ''images'' empty_world))"
  using saved_at_most_once [OF refl refl refl, of sample_env "''https://ex.com/a.png''"
      "''https://ex.com/''" "''images''" empty_world] a_png_saved_first
  unfolding Let_def by blast

text \<open>
  The claim as stated fails for \<open>https://ex.com/photo\<close>: the server answers the full
  retrieval with status 200 and an SVG content type, line 235 returns before anything is
  written, and the second call retrieves the body again. Both retrievals succeed.
\<close>

theorem two_successful_retrievals_counterexample:
  "successful_retrievals sample_env
     (net_log (snd (download_image_outcome sample_env ''https://ex.com/photo'' ''https://ex.com/''
        ''images''
        (snd (download_image_outcome sample_env ''https://ex.com/photo'' ''https://ex.com/''
               ''images'' empty_world))))) = 2"
  by code_simp

end
